theory Spec2Isabelle
  imports Main "HOL-Library.Multiset"
begin

section \<open>The data generation script \<open>generate_data.py\<close>\<close>

text \<open>
  The script is one linear run: it builds the asset metadata table, builds the access
  log table, joins the asset columns into the log, overwrites a random selection of log
  rows with anomalies, and labels every row with \<open>Policy_Violation\<close>.

  The script's constants \<open>n_assets\<close>, \<open>n_logs\<close>, \<open>n_users\<close> and \<open>n_anomalies\<close>
  are parameters of the stage functions below; \<open>generate_data\<close> applies the stages to
  the values the script assigns.
\<close>

subsection \<open>Exceptions\<close>

datatype error = ValueError | KeyError

subsection \<open>The random number generator\<close>

text \<open>
  \<open>np.random\<close> is one global generator, seeded once, read in sequence. Its state is
  modelled as the infinite tape of raw numbers it is still going to produce: position
  \<open>0\<close> is the next one. Every bounded draw reduces the raw number into the range the
  call asks for, so each tape gives one run of the script and each possible outcome of a
  call is produced by some tape. The probabilities (the \<open>p=\<close> arguments) decide how
  likely an outcome is, not which outcomes exist: every listed weight is positive.
\<close>

type_synonym rng = "nat \<Rightarrow> nat"

definition next_raw :: "rng \<Rightarrow> nat \<times> rng" where
  "next_raw g = (g 0, \<lambda>n. g (Suc n))"

definition randint :: "nat \<Rightarrow> nat \<Rightarrow> rng \<Rightarrow> error + (nat \<times> rng)" where
  \<comment> \<open>\<open>np.random.randint(low, high)\<close>: an integer in \<open>[low, high)\<close>; \<open>low >= high\<close> raises.\<close>
  "randint low high g =
     (if high \<le> low then Inl ValueError
      else case next_raw g of (r, g') \<Rightarrow> Inr (low + r mod (high - low), g'))"

definition choice :: "'a list \<Rightarrow> rng \<Rightarrow> error + ('a \<times> rng)" where
  \<comment> \<open>\<open>np.random.choice(a)\<close>, with or without \<open>p=\<close>: one element of \<open>a\<close>; an empty \<open>a\<close> raises.\<close>
  "choice a g =
     (if a = [] then Inl ValueError
      else case next_raw g of (r, g') \<Rightarrow> Inr (a ! (r mod length a), g'))"

fun sample :: "nat \<Rightarrow> (rng \<Rightarrow> error + ('a \<times> rng)) \<Rightarrow> rng \<Rightarrow> error + ('a list \<times> rng)" where
  \<comment> \<open>The \<open>size=n\<close> form of a draw: \<open>n\<close> draws in sequence; no draw is made when \<open>n = 0\<close>.\<close>
  "sample 0 f g = Inr ([], g)"
| "sample (Suc n) f g =
     (case f g of
        Inl e \<Rightarrow> Inl e
      | Inr (x, g1) \<Rightarrow>
          (case sample n f g1 of
             Inl e \<Rightarrow> Inl e
           | Inr (xs, g2) \<Rightarrow> Inr (x # xs, g2)))"

fun shuffle_loop :: "nat \<Rightarrow> 'a list \<Rightarrow> rng \<Rightarrow> 'a list \<times> rng" where
  \<comment> \<open>\<open>for i in reversed(range(1, n)): j = random_interval(i); x[i], x[j] = x[j], x[i]\<close>\<close>
  "shuffle_loop 0 x g = (x, g)"
| "shuffle_loop (Suc i) x g =
     (case next_raw g of (r, g') \<Rightarrow>
        (let j = r mod (Suc i + 1) in
         shuffle_loop i (x[Suc i := x ! j, j := x ! Suc i]) g'))"

definition shuffle :: "'a list \<Rightarrow> rng \<Rightarrow> 'a list \<times> rng" where
  \<comment> \<open>\<open>np.random.shuffle(x)\<close>: exchanges elements in place, from the last position down.\<close>
  "shuffle x g = shuffle_loop (length x - 1) x g"

subsection \<open>Formatting integers: \<open>f'{i:04d}'\<close>\<close>

definition digit_char :: "nat \<Rightarrow> char" where
  "digit_char d = ''0123456789'' ! d"

fun str_nat :: "nat \<Rightarrow> string" where
  \<comment> \<open>The decimal digits of a non-negative integer, most significant first.\<close>
  "str_nat n = (if n < 10 then [digit_char n] else str_nat (n div 10) @ [digit_char (n mod 10)])"

declare str_nat.simps [simp del]

definition format_0d :: "nat \<Rightarrow> nat \<Rightarrow> string" where
  \<comment> \<open>\<open>f'{i:0wd}'\<close>: zeros on the left up to width \<open>w\<close>; a longer number is not cut.\<close>
  "format_0d w i = replicate (w - length (str_nat i)) (CHR ''0'') @ str_nat i"

subsection \<open>The asset metadata table\<close>

record asset =
  meta_Data_Asset_ID :: string
  meta_PHI_Flag :: bool
  meta_Encryption_Status :: string

definition asset_ids :: "nat \<Rightarrow> string list" where
  \<comment> \<open>\<open>[f'ASSET_{i:04d}' for i in range(1, n_assets + 1)]\<close>\<close>
  "asset_ids n = map (\<lambda>i. ''ASSET_'' @ format_0d 4 i) [1..<n + 1]"

definition generate_metadata :: "nat \<Rightarrow> rng \<Rightarrow> error + (asset list \<times> rng)" where
  \<comment> \<open>The three columns are built in the order written; row \<open>i\<close> of the data frame
      holds position \<open>i\<close> of each column.\<close>
  "generate_metadata n g =
     (case sample n (choice [True, False]) g of
        Inl e \<Rightarrow> Inl e
      | Inr (phi, g1) \<Rightarrow>
          (case sample n (choice [''Encrypted'', ''Plain'']) g1 of
             Inl e \<Rightarrow> Inl e
           | Inr (enc, g2) \<Rightarrow>
               Inr (map (\<lambda>i. \<lparr>meta_Data_Asset_ID = asset_ids n ! i,
                               meta_PHI_Flag = phi ! i,
                               meta_Encryption_Status = enc ! i\<rparr>) [0..<n], g2)))"

subsection \<open>Timestamps\<close>

record timestamp =
  year :: nat
  month :: nat
  day :: nat
  hour :: nat
  minute :: nat
  second :: nat

definition start_date :: timestamp where
  \<comment> \<open>\<open>datetime(2024, 1, 1)\<close>\<close>
  "start_date = \<lparr>year = 2024, month = 1, day = 1, hour = 0, minute = 0, second = 0\<rparr>"

definition is_leap :: "nat \<Rightarrow> bool" where
  "is_leap y = (y mod 4 = 0 \<and> (y mod 100 \<noteq> 0 \<or> y mod 400 = 0))"

definition days_in_month :: "nat \<Rightarrow> nat \<Rightarrow> nat" where
  "days_in_month y m =
     (if m = 2 then (if is_leap y then 29 else 28)
      else if m = 4 \<or> m = 6 \<or> m = 9 \<or> m = 11 then 30 else 31)"

definition next_day :: "timestamp \<Rightarrow> timestamp" where
  "next_day t =
     (if day t < days_in_month (year t) (month t) then t\<lparr>day := day t + 1\<rparr>
      else if month t < 12 then t\<lparr>month := month t + 1, day := 1\<rparr>
      else t\<lparr>year := year t + 1, month := 1, day := 1\<rparr>)"

definition add_timedelta :: "timestamp \<Rightarrow> nat \<Rightarrow> nat \<Rightarrow> nat \<Rightarrow> timestamp" where
  \<comment> \<open>\<open>t + timedelta(days=d, hours=h, minutes=m)\<close>: the time of day carries into the date.\<close>
  "add_timedelta t d h m =
     (let s = hour t * 3600 + minute t * 60 + second t + h * 3600 + m * 60 in
      ((next_day ^^ (d + s div 86400)) t)
        \<lparr>hour := s mod 86400 div 3600, minute := s mod 3600 div 60, second := s mod 60\<rparr>)"

definition timestamp_replace :: "timestamp \<Rightarrow> nat \<Rightarrow> nat \<Rightarrow> error + timestamp" where
  \<comment> \<open>\<open>t.replace(hour=h, minute=m)\<close>: the other fields stay; a field out of range raises.\<close>
  "timestamp_replace t h m =
     (if 23 < h then Inl ValueError
      else if 59 < m then Inl ValueError
      else Inr (t\<lparr>hour := h, minute := m\<rparr>))"

subsection \<open>The access log table\<close>

record access_log =
  Timestamp :: timestamp
  User_ID :: string
  Data_Asset_ID :: string
  Access_Type :: string
  IP_Location :: string

definition draw_timestamp :: "rng \<Rightarrow> error + (timestamp \<times> rng)" where
  \<comment> \<open>One pass of the loop that fills \<open>timestamps\<close>.\<close>
  "draw_timestamp g =
     (case randint 0 180 g of
        Inl e \<Rightarrow> Inl e
      | Inr (days_offset, g1) \<Rightarrow>
          (case randint 0 24 g1 of
             Inl e \<Rightarrow> Inl e
           | Inr (hours_offset, g2) \<Rightarrow>
               (case randint 0 60 g2 of
                  Inl e \<Rightarrow> Inl e
                | Inr (minutes_offset, g3) \<Rightarrow>
                    Inr (add_timedelta start_date days_offset hours_offset minutes_offset, g3))))"

definition generate_access_logs ::
  "nat \<Rightarrow> nat \<Rightarrow> asset list \<Rightarrow> rng \<Rightarrow> error + (access_log list \<times> rng)" where
  "generate_access_logs n_logs n_users df_metadata g =
     (case sample n_logs draw_timestamp g of
        Inl e \<Rightarrow> Inl e
      | Inr (timestamps, g1) \<Rightarrow>
     (case sample n_logs (randint 1 (n_users + 1)) g1 of
        Inl e \<Rightarrow> Inl e
      | Inr (users, g2) \<Rightarrow>
     (case sample n_logs (choice (map meta_Data_Asset_ID df_metadata)) g2 of
        Inl e \<Rightarrow> Inl e
      | Inr (assets, g3) \<Rightarrow>
     (case sample n_logs (choice [''Read'', ''Write'']) g3 of
        Inl e \<Rightarrow> Inl e
      | Inr (types, g4) \<Rightarrow>
     (case sample n_logs (choice [''US'', ''EU'', ''AS'']) g4 of
        Inl e \<Rightarrow> Inl e
      | Inr (ips, g5) \<Rightarrow>
          Inr (map (\<lambda>i. \<lparr>Timestamp = timestamps ! i,
                          User_ID = ''USER_'' @ format_0d 3 (users ! i),
                          Data_Asset_ID = assets ! i,
                          Access_Type = types ! i,
                          IP_Location = ips ! i\<rparr>) [0..<n_logs], g5))))))"

subsection \<open>The join with the metadata\<close>

text \<open>
  A left join keeps every log row, in order. A row whose asset ID is in no metadata
  row gets the missing value (NaN) in both joined columns, here \<open>None\<close>; a row whose
  asset ID is in several metadata rows is repeated once for each.
\<close>

record merged_log = access_log +
  PHI_Flag :: "bool option"
  Encryption_Status :: "string option"

definition merge_row :: "asset list \<Rightarrow> access_log \<Rightarrow> merged_log list" where
  "merge_row df_metadata r =
     (case filter (\<lambda>a. meta_Data_Asset_ID a = Data_Asset_ID r) df_metadata of
        [] \<Rightarrow> [\<lparr>Timestamp = Timestamp r, User_ID = User_ID r, Data_Asset_ID = Data_Asset_ID r,
                Access_Type = Access_Type r, IP_Location = IP_Location r,
                PHI_Flag = None, Encryption_Status = None\<rparr>]
      | ms \<Rightarrow> map (\<lambda>a. \<lparr>Timestamp = Timestamp r, User_ID = User_ID r,
                         Data_Asset_ID = Data_Asset_ID r,
                         Access_Type = Access_Type r, IP_Location = IP_Location r,
                         PHI_Flag = Some (meta_PHI_Flag a),
                         Encryption_Status = Some (meta_Encryption_Status a)\<rparr>) ms)"

definition merge_left :: "access_log list \<Rightarrow> asset list \<Rightarrow> merged_log list" where
  \<comment> \<open>\<open>df_access_logs.merge(df_metadata[...], on='Data_Asset_ID', how='left')\<close>\<close>
  "merge_left df_access_logs df_metadata = concat (map (merge_row df_metadata) df_access_logs)"

subsection \<open>Anomaly injection\<close>

definition plain_phi_assets :: "asset list \<Rightarrow> string list" where
  "plain_phi_assets df_metadata =
     map meta_Data_Asset_ID
       (filter (\<lambda>a. meta_PHI_Flag a = True \<and> meta_Encryption_Status a = ''Plain'') df_metadata)"

definition apply_anomaly ::
  "string \<Rightarrow> asset list \<Rightarrow> merged_log \<Rightarrow> rng \<Rightarrow> error + (merged_log \<times> rng)" where
  \<comment> \<open>The \<open>if\<close>/\<open>elif\<close> chain on \<open>anomaly_type\<close>, applied to the copy \<open>row\<close>.\<close>
  "apply_anomaly anomaly_type df_metadata row g =
     (if anomaly_type = ''plain_phi'' then
        (if 0 < length (plain_phi_assets df_metadata) then
           (case choice (plain_phi_assets df_metadata) g of
              Inl e \<Rightarrow> Inl e
            | Inr (a, g1) \<Rightarrow>
                Inr (row\<lparr>Data_Asset_ID := a, PHI_Flag := Some True,
                         Encryption_Status := Some ''Plain''\<rparr>, g1))
         else Inr (row, g))
      else if anomaly_type = ''off_hours'' then
        (case choice [21, 22, 23, 0, 1, 2, 3, 4] g of
           Inl e \<Rightarrow> Inl e
         | Inr (h, g1) \<Rightarrow>
             (case randint 0 60 g1 of
                Inl e \<Rightarrow> Inl e
              | Inr (m, g2) \<Rightarrow>
                  (case timestamp_replace (Timestamp row) h m of
                     Inl e \<Rightarrow> Inl e
                   | Inr new_timestamp \<Rightarrow> Inr (row\<lparr>Timestamp := new_timestamp\<rparr>, g2))))
      else if anomaly_type = ''non_us'' then
        (case choice [''EU'', ''AS''] g of
           Inl e \<Rightarrow> Inl e
         | Inr (ip, g1) \<Rightarrow> Inr (row\<lparr>IP_Location := ip\<rparr>, g1))
      else Inr (row, g))"

definition make_anomaly :: "asset list \<Rightarrow> merged_log \<Rightarrow> rng \<Rightarrow> error + (merged_log \<times> rng)" where
  \<comment> \<open>The body of the loop after the row is copied: draw the type, then mutate the copy.\<close>
  "make_anomaly df_metadata row g =
     (case choice [''plain_phi'', ''off_hours'', ''non_us''] g of
        Inl e \<Rightarrow> Inl e
      | Inr (anomaly_type, g1) \<Rightarrow> apply_anomaly anomaly_type df_metadata row g1)"

definition loc :: "'a list \<Rightarrow> nat \<Rightarrow> error + 'a" where
  \<comment> \<open>\<open>df.loc[idx]\<close> on the default index \<open>0 .. len(df) - 1\<close>: a label not in it raises.\<close>
  "loc df idx = (if idx < length df then Inr (df ! idx) else Inl KeyError)"

fun anomaly_loop ::
  "asset list \<Rightarrow> merged_log list \<Rightarrow> nat list \<Rightarrow> rng \<Rightarrow> error + (merged_log list \<times> rng)" where
  \<comment> \<open>\<open>for idx in anomaly_indices\<close>: every row is read from the table as it was before
      the loop; the table itself is written only after the loop.\<close>
  "anomaly_loop df_metadata df [] g = Inr ([], g)"
| "anomaly_loop df_metadata df (idx # idxs) g =
     (case loc df idx of
        Inl e \<Rightarrow> Inl e
      | Inr row \<Rightarrow>
          (case make_anomaly df_metadata row g of
             Inl e \<Rightarrow> Inl e
           | Inr (row', g1) \<Rightarrow>
               (case anomaly_loop df_metadata df idxs g1 of
                  Inl e \<Rightarrow> Inl e
                | Inr (anomaly_rows, g2) \<Rightarrow> Inr (row' # anomaly_rows, g2))))"

definition write_rows :: "'a list \<Rightarrow> nat list \<Rightarrow> 'a list \<Rightarrow> 'a list" where
  \<comment> \<open>Row \<open>indices[k]\<close> becomes \<open>rows[k]\<close>, for every \<open>k\<close> in turn. Every index
      written here was read by \<open>loc\<close> before, so it is in range.\<close>
  "write_rows df indices rows = fold (\<lambda>(idx, row) d. d[idx := row]) (zip indices rows) df"

definition loc_assign :: "'a list \<Rightarrow> nat list \<Rightarrow> 'a list \<Rightarrow> error + 'a list" where
  \<comment> \<open>\<open>df.loc[indices] = rows\<close> with \<open>rows\<close> a list of rows. One or more rows are
      written by position. With no index selected the list of rows is not a table of
      rows any more: it is accepted (and nothing is written) only when it has as many
      entries as the table has rows, and raises otherwise.\<close>
  "loc_assign df indices rows =
     (if indices = [] \<and> length rows \<noteq> length df then Inl ValueError
      else Inr (write_rows df indices rows))"

definition select_anomaly_indices :: "nat \<Rightarrow> 'a list \<Rightarrow> rng \<Rightarrow> nat list \<times> rng" where
  \<comment> \<open>\<open>normal_indices = df.index.tolist(); shuffle; anomaly_indices = normal_indices[:n]\<close>\<close>
  "select_anomaly_indices n_anomalies df g =
     (case shuffle [0..<length df] g of
        (normal_indices, g1) \<Rightarrow> (take n_anomalies normal_indices, g1))"

definition inject_anomalies ::
  "nat \<Rightarrow> merged_log list \<Rightarrow> asset list \<Rightarrow> rng
     \<Rightarrow> error + ((nat list \<times> merged_log list \<times> merged_log list) \<times> rng)" where
  \<comment> \<open>The whole injection block. Returned: \<open>anomaly_indices\<close>, \<open>anomaly_rows\<close> and
      the table after \<open>df.loc[anomaly_indices] = anomaly_rows\<close>.\<close>
  "inject_anomalies n_anomalies df df_metadata g =
     (case select_anomaly_indices n_anomalies df g of
        (anomaly_indices, g1) \<Rightarrow>
          (case anomaly_loop df_metadata df anomaly_indices g1 of
             Inl e \<Rightarrow> Inl e
           | Inr (anomaly_rows, g2) \<Rightarrow>
               (case loc_assign df anomaly_indices anomaly_rows of
                  Inl e \<Rightarrow> Inl e
                | Inr df' \<Rightarrow> Inr ((anomaly_indices, anomaly_rows, df'), g2))))"

subsection \<open>Policy violation labels\<close>

record labelled_log = merged_log +
  Policy_Violation :: int

definition set_Policy_Violation :: "'a merged_log_scheme \<Rightarrow> int \<Rightarrow> labelled_log" where
  \<comment> \<open>Writing the column \<open>Policy_Violation\<close> of one row: it is added when the table
      does not have it yet and overwritten when it does.\<close>
  "set_Policy_Violation r v =
     \<lparr>Timestamp = Timestamp r, User_ID = User_ID r, Data_Asset_ID = Data_Asset_ID r,
      Access_Type = Access_Type r, IP_Location = IP_Location r,
      PHI_Flag = PHI_Flag r, Encryption_Status = Encryption_Status r,
      Policy_Violation = v\<rparr>"

definition truthy :: "bool option \<Rightarrow> bool" where
  \<comment> \<open>Python's truth value of a cell of \<open>PHI_Flag\<close>: only \<open>False\<close> is false; NaN is true.\<close>
  "truthy v = (v \<noteq> Some False)"

definition violation_of :: "'a merged_log_scheme \<Rightarrow> bool" where
  \<comment> \<open>The three checks of the loop body, in order, on one row.\<close>
  "violation_of row =
     (let violation = False;
          violation = (if truthy (PHI_Flag row) \<and> Encryption_Status row = Some ''Plain''
                       then True else violation);
          h = hour (Timestamp row);
          violation = (if 21 \<le> h \<or> h < 5 then True else violation);
          violation = (if IP_Location row \<noteq> ''US'' then True else violation)
      in violation)"

definition label_loop :: "(nat \<times> labelled_log) list \<Rightarrow> labelled_log list \<Rightarrow> labelled_log list" where
  \<comment> \<open>\<open>for idx, row in df.iterrows(): ...; df.loc[idx, 'Policy_Violation'] = ...\<close>\<close>
  "label_loop items df =
     fold (\<lambda>(idx, row) d.
             d[idx := (d ! idx)\<lparr>Policy_Violation := (if violation_of row then 1 else 0)\<rparr>])
          items df"

definition iterrows :: "'a list \<Rightarrow> (nat \<times> 'a) list" where
  "iterrows df = zip [0..<length df] df"

definition labeler :: "'a merged_log_scheme list \<Rightarrow> labelled_log list" where
  \<comment> \<open>\<open>df['Policy_Violation'] = 0\<close>, then the loop over the rows.\<close>
  "labeler df =
     (let df0 = map (\<lambda>r. set_Policy_Violation r 0) df in label_loop (iterrows df0) df0)"

subsection \<open>The whole script\<close>

record run =
  df_metadata :: "asset list"
  generated_logs :: "access_log list"
  merged_logs :: "merged_log list"
  anomaly_indices :: "nat list"
  anomaly_rows :: "merged_log list"
  injected_logs :: "merged_log list"
  df_access_logs :: "labelled_log list"

definition pipeline :: "nat \<Rightarrow> nat \<Rightarrow> nat \<Rightarrow> nat \<Rightarrow> rng \<Rightarrow> error + run" where
  \<comment> \<open>The stages in the order of the script; the result records the script's variables:
      the metadata table, and the log table as generated, as joined, after the
      injection and after the labelling.\<close>
  "pipeline n_assets n_logs n_users n_anomalies g =
     (case generate_metadata n_assets g of
        Inl e \<Rightarrow> Inl e
      | Inr (meta, g1) \<Rightarrow>
          (case generate_access_logs n_logs n_users meta g1 of
             Inl e \<Rightarrow> Inl e
           | Inr (logs, g2) \<Rightarrow>
               (case inject_anomalies n_anomalies (merge_left logs meta) meta g2 of
                  Inl e \<Rightarrow> Inl e
                | Inr ((indices, rows, injected), g3) \<Rightarrow>
                    Inr \<lparr>df_metadata = meta, generated_logs = logs,
                         merged_logs = merge_left logs meta,
                         anomaly_indices = indices, anomaly_rows = rows,
                         injected_logs = injected,
                         df_access_logs = labeler injected\<rparr>)))"

definition n_assets :: nat where "n_assets = 500"
definition n_logs :: nat where "n_logs = 100000"
definition n_users :: nat where "n_users = 100"
definition n_anomalies :: nat where "n_anomalies = 2500"

definition generate_data :: "rng \<Rightarrow> error + run" where
  "generate_data g = pipeline n_assets n_logs n_users n_anomalies g"

subsection \<open>Reading a formatted number back\<close>

definition digit_val :: "char \<Rightarrow> nat" where
  "digit_val c = of_char c - 48"

definition decimal_value :: "string \<Rightarrow> nat" where
  \<comment> \<open>The number a string of decimal digits denotes; leading zeros do not count.\<close>
  "decimal_value s = foldl (\<lambda>a c. 10 * a + digit_val c) 0 s"

definition asset_pattern :: "nat \<Rightarrow> string" where
  \<comment> \<open>The naming pattern as the specification words it: \<open>ASSET_\<close> followed by the
      position as exactly four decimal digits.\<close>
  "asset_pattern k =
     ''ASSET_'' @ [digit_char (k div 1000 mod 10), digit_char (k div 100 mod 10),
                   digit_char (k div 10 mod 10), digit_char (k mod 10)]"

subsection \<open>Example rows\<close>

text \<open>Concrete rows and tables at which the theorems below are instantiated.\<close>

definition example_time :: timestamp where
  "example_time = \<lparr>year = 2024, month = 3, day = 7, hour = 14, minute = 20, second = 0\<rparr>"

definition example_row :: merged_log where
  \<comment> \<open>A benign row: encrypted non-PHI asset, business hours, US.\<close>
  "example_row =
     \<lparr>Timestamp = example_time, User_ID = ''USER_037'', Data_Asset_ID = ''ASSET_0001'',
      Access_Type = ''Read'', IP_Location = ''US'',
      PHI_Flag = Some False, Encryption_Status = Some ''Encrypted''\<rparr>"

definition example_row_eu :: merged_log where
  "example_row_eu = example_row\<lparr>IP_Location := ''EU''\<rparr>"

definition example_metadata :: "asset list" where
  \<comment> \<open>An asset table without any plaintext PHI asset.\<close>
  "example_metadata =
     [\<lparr>meta_Data_Asset_ID = ''ASSET_0001'', meta_PHI_Flag = False,
       meta_Encryption_Status = ''Encrypted''\<rparr>,
      \<lparr>meta_Data_Asset_ID = ''ASSET_0002'', meta_PHI_Flag = True,
       meta_Encryption_Status = ''Encrypted''\<rparr>,
      \<lparr>meta_Data_Asset_ID = ''ASSET_0003'', meta_PHI_Flag = False,
       meta_Encryption_Status = ''Plain''\<rparr>]"

definition zero_tape :: rng where
  \<comment> \<open>The generator whose every raw number is 0: each draw returns the first option.\<close>
  "zero_tape n = 0"

definition one_tape :: rng where
  \<comment> \<open>The generator whose every raw number is 1.\<close>
  "one_tape n = 1"

subsection \<open>The invariant of the joined columns\<close>

definition consistent_with :: "asset list \<Rightarrow> 'a merged_log_scheme \<Rightarrow> bool" where
  \<comment> \<open>The row's asset ID is the ID of a metadata row, and the row's copies of
      \<open>PHI_Flag\<close> and \<open>Encryption_Status\<close> are that metadata row's values.\<close>
  "consistent_with meta r =
     (\<exists>a\<in>set meta. meta_Data_Asset_ID a = Data_Asset_ID r
        \<and> PHI_Flag r = Some (meta_PHI_Flag a)
        \<and> Encryption_Status r = Some (meta_Encryption_Status a))"

subsection \<open>What the specification says an anomaly does\<close>


section \<open>Properties\<close>

subsection \<open>Draws\<close>

lemma randint_Inr:
  "low < high \<Longrightarrow> randint low high g = Inr (low + g 0 mod (high - low), \<lambda>n. g (Suc n))"
  by (simp add: randint_def next_raw_def)

lemma randint_range:
  assumes "randint low high g = Inr (x, g')"
  shows "low \<le> x \<and> x < high"
proof -
  from assms have lt: "low < high" and x: "x = low + g 0 mod (high - low)"
    by (auto simp: randint_def next_raw_def split: if_splits)
  have "g 0 mod (high - low) < high - low" using lt by simp
  then show ?thesis using x lt by linarith
qed

lemma choice_Inr:
  "a \<noteq> [] \<Longrightarrow> choice a g = Inr (a ! (g 0 mod length a), \<lambda>n. g (Suc n))"
  by (simp add: choice_def next_raw_def)

lemma choice_member:
  assumes "choice a g = Inr (x, g')"
  shows "x \<in> set a"
  using assms by (auto simp: choice_def next_raw_def split: if_splits)

lemma choice_Inl:
  "choice a g = Inl e \<Longrightarrow> a = []"
  by (auto simp: choice_def next_raw_def split: if_splits)

lemma sample_length:
  "sample n f g = Inr (xs, g') \<Longrightarrow> length xs = n"
  by (induction n arbitrary: g xs) (auto split: sum.splits prod.splits)

lemma sample_all:
  assumes "sample n f g = Inr (xs, g')"
    and "\<And>h x h'. f h = Inr (x, h') \<Longrightarrow> P x"
  shows "\<forall>x\<in>set xs. P x"
  using assms(1)
proof (induction n arbitrary: g xs)
  case 0
  then show ?case by simp
next
  case (Suc n)
  then show ?case
    by (auto split: sum.splits prod.splits dest: assms(2))
qed

lemma sample_total:
  assumes "\<And>h. \<exists>x h'. f h = Inr (x, h')"
  shows "\<exists>xs g'. sample n f g = Inr (xs, g')"
proof (induction n arbitrary: g)
  case 0
  show ?case by simp
next
  case (Suc n)
  obtain x g1 where f: "f g = Inr (x, g1)" using assms by blast
  obtain xs g2 where s: "sample n f g1 = Inr (xs, g2)" using Suc by blast
  show ?case by (simp add: f s)
qed

lemma sample_Inl:
  assumes "sample n f g = Inl e"
  shows "\<exists>h. f h = Inl e"
  using assms
  by (induction n arbitrary: g) (auto split: sum.splits prod.splits)

subsection \<open>The shuffle is a permutation\<close>

lemma shuffle_loop_mset:
  "i < length x \<Longrightarrow> mset (fst (shuffle_loop i x g)) = mset x"
proof (induction i arbitrary: x g)
  case 0
  then show ?case by simp
next
  case (Suc i)
  define j where "j = g 0 mod (Suc i + 1)"
  define y where "y = x[Suc i := x ! j, j := x ! Suc i]"
  have "j < Suc i + 1" unfolding j_def by (rule mod_less_divisor) simp
  then have j: "j < length x" using Suc.prems by linarith
  have len: "length y = length x" by (simp add: y_def)
  have "mset y = mset x"
    unfolding y_def using Suc.prems j by (simp add: mset_swap)
  moreover have "mset (fst (shuffle_loop i y (\<lambda>n. g (Suc n)))) = mset y"
    by (rule Suc.IH) (use Suc.prems len in linarith)
  moreover have "shuffle_loop (Suc i) x g = shuffle_loop i y (\<lambda>n. g (Suc n))"
    by (simp add: next_raw_def Let_def y_def j_def)
  ultimately show ?case by simp
qed

lemma shuffle_mset: "mset (fst (shuffle x g)) = mset x"
proof (cases x)
  case Nil
  then show ?thesis by (simp add: shuffle_def)
next
  case (Cons a as)
  then have "length x - 1 < length x" by simp
  then show ?thesis unfolding shuffle_def by (rule shuffle_loop_mset)
qed

lemma shuffle_length: "length (fst (shuffle x g)) = length x"
  using arg_cong[OF shuffle_mset[of x g], of size] by simp

lemma shuffle_set: "set (fst (shuffle x g)) = set x"
  using arg_cong[OF shuffle_mset[of x g], of set_mset] by simp

lemma shuffle_distinct: "distinct x \<Longrightarrow> distinct (fst (shuffle x g))"
  using mset_eq_imp_distinct_iff[OF shuffle_mset[of x g]] by simp

subsection \<open>Formatted asset IDs\<close>

lemma str_nat_small: "n < 10 \<Longrightarrow> str_nat n = [digit_char n]"
  by (simp add: str_nat.simps[of n])

lemma str_nat_step: "10 \<le> n \<Longrightarrow> str_nat n = str_nat (n div 10) @ [digit_char (n mod 10)]"
  by (simp add: str_nat.simps[of n])

lemma format_0d_4: 
  assumes "k < 10000"
  shows "format_0d 4 k = [digit_char (k div 1000 mod 10), digit_char (k div 100 mod 10),
                   digit_char (k div 10 mod 10), digit_char (k mod 10)]"
proof -
  have z: "digit_char 0 = CHR ''0''" by (simp add: digit_char_def)
  have r: "replicate 3 (CHR ''0'') = ''000''" "replicate 2 (CHR ''0'') = ''00''"
    by (simp_all add: numeral_3_eq_3 numeral_2_eq_2)
  have d100: "k div 10 div 10 = k div 100" by (simp add: div_mult2_eq[symmetric])
  have d1000: "k div 100 div 10 = k div 1000" by (simp add: div_mult2_eq[symmetric])
  consider "k < 10" | "10 \<le> k" "k < 100" | "100 \<le> k" "k < 1000" | "1000 \<le> k"
    by fastforce
  then show ?thesis
  proof cases
    case 1
    then have "str_nat k = [digit_char k]" by (rule str_nat_small)
    moreover have "k div 10 = 0" "k div 100 = 0" "k div 1000 = 0" "k mod 10 = k"
      using 1 by simp_all
    ultimately show ?thesis by (simp add: format_0d_def z r)
  next
    case 2
    have "str_nat k = str_nat (k div 10) @ [digit_char (k mod 10)]"
      using 2(1) by (rule str_nat_step)
    moreover have "str_nat (k div 10) = [digit_char (k div 10)]"
      by (rule str_nat_small) (use 2 in linarith)
    moreover have "k div 100 = 0" "k div 1000 = 0" "k div 10 mod 10 = k div 10"
      using 2 by simp_all
    ultimately show ?thesis by (simp add: format_0d_def z r)
  next
    case 3
    have "str_nat k = str_nat (k div 10) @ [digit_char (k mod 10)]"
      by (rule str_nat_step) (use 3 in linarith)
    moreover have "str_nat (k div 10) = str_nat (k div 100) @ [digit_char (k div 10 mod 10)]"
      using str_nat_step[of "k div 10"] 3 d100 by simp
    moreover have "str_nat (k div 100) = [digit_char (k div 100)]"
      by (rule str_nat_small) (use 3 in linarith)
    moreover have "k div 1000 = 0" "k div 100 mod 10 = k div 100"
      using 3 by simp_all
    ultimately show ?thesis by (simp add: format_0d_def z r)
  next
    case 4
    have "str_nat k = str_nat (k div 10) @ [digit_char (k mod 10)]"
      by (rule str_nat_step) (use 4 in linarith)
    moreover have "str_nat (k div 10) = str_nat (k div 100) @ [digit_char (k div 10 mod 10)]"
      using str_nat_step[of "k div 10"] 4 d100 by simp
    moreover have "str_nat (k div 100) = str_nat (k div 1000) @ [digit_char (k div 100 mod 10)]"
      using str_nat_step[of "k div 100"] 4 d1000 by simp
    moreover have "str_nat (k div 1000) = [digit_char (k div 1000)]"
      by (rule str_nat_small) (use assms in linarith)
    moreover have "k div 1000 mod 10 = k div 1000"
      using assms by simp
    ultimately show ?thesis by (simp add: format_0d_def)
  qed
qed

lemma upt_10: "[0..<10] = [0, 1, 2, 3, 4, 5, 6, 7, 8, 9]"
  by (simp add: upt_rec)

lemma digit_val_digit_char: "d < 10 \<Longrightarrow> digit_val (digit_char d) = d"
proof -
  assume "d < 10"
  then have "d \<in> set [0..<10]" by simp
  then have "d \<in> {0, 1, 2, 3, 4, 5, 6, 7, 8, 9}" unfolding upt_10 by simp
  then show ?thesis
    by (auto simp: digit_val_def digit_char_def)
qed

lemma decimal_value_snoc: "decimal_value (s @ [c]) = 10 * decimal_value s + digit_val c"
  by (simp add: decimal_value_def)

lemma decimal_value_str_nat: "decimal_value (str_nat n) = n"
proof (induction n rule: str_nat.induct)
  case (1 n)
  show ?case
  proof (cases "n < 10")
    case True
    then show ?thesis
      by (simp add: str_nat.simps[of n] decimal_value_def digit_val_digit_char)
  next
    case False
    then have "decimal_value (str_nat (n div 10)) = n div 10" using 1 by simp
    then show ?thesis using False
      by (simp add: str_nat.simps[of n] decimal_value_snoc digit_val_digit_char)
  qed
qed

lemma decimal_value_zeros: "decimal_value (replicate k (CHR ''0'') @ s) = decimal_value s"
proof -
  have "foldl (\<lambda>a c. 10 * a + digit_val c) 0 (replicate k (CHR ''0'')) = 0"
    by (induction k) (simp_all add: digit_val_def)
  then show ?thesis by (simp add: decimal_value_def)
qed

lemma decimal_value_format_0d: "decimal_value (format_0d w i) = i"
  by (simp add: format_0d_def decimal_value_zeros decimal_value_str_nat)

lemma format_0d_inj: "format_0d w i = format_0d w j \<Longrightarrow> i = j"
  using decimal_value_format_0d by metis

lemma asset_ids_length: "length (asset_ids n) = n"
  by (simp add: asset_ids_def)

lemma asset_ids_nth: "i < n \<Longrightarrow> asset_ids n ! i = ''ASSET_'' @ format_0d 4 (i + 1)"
  unfolding asset_ids_def by (simp add: nth_map_upt del: upt_Suc)

lemma asset_ids_distinct: "distinct (asset_ids n)"
  unfolding asset_ids_def
  by (simp add: distinct_map inj_on_def del: upt_Suc) (metis format_0d_inj)

lemma asset_ids_pattern: "i < n \<Longrightarrow> n < 10000 \<Longrightarrow> asset_ids n ! i = asset_pattern (i + 1)"
  by (simp add: asset_ids_nth asset_pattern_def format_0d_4)

subsection \<open>The asset generator\<close>

lemma generate_metadata_total: "\<exists>meta g'. generate_metadata n g = Inr (meta, g')"
proof -
  obtain phi g1 where p: "sample n (choice [True, False]) g = Inr (phi, g1)"
    using sample_total[of "choice [True, False]" n g] by (auto simp: choice_Inr)
  obtain enc g2 where e: "sample n (choice [''Encrypted'', ''Plain'']) g1 = Inr (enc, g2)"
    using sample_total[of "choice [''Encrypted'', ''Plain'']" n g1] by (auto simp: choice_Inr)
  show ?thesis by (simp add: generate_metadata_def p e)
qed

lemma generate_metadata_rows:
  assumes "generate_metadata n g = Inr (meta, g')"
  shows "length meta = n"
    and "map meta_Data_Asset_ID meta = asset_ids n"
    and "\<forall>a\<in>set meta. meta_Encryption_Status a \<in> {''Encrypted'', ''Plain''}"
proof -
  from assms obtain phi g1 enc where
    p: "sample n (choice [True, False]) g = Inr (phi, g1)" and
    e: "sample n (choice [''Encrypted'', ''Plain'']) g1 = Inr (enc, g')" and
    m: "meta = map (\<lambda>i. \<lparr>meta_Data_Asset_ID = asset_ids n ! i, meta_PHI_Flag = phi ! i,
                          meta_Encryption_Status = enc ! i\<rparr>) [0..<n]"
    by (auto simp: generate_metadata_def split: sum.splits prod.splits)
  show "length meta = n" by (simp add: m)
  have "map meta_Data_Asset_ID meta = map (\<lambda>i. asset_ids n ! i) [0..<n]"
    by (simp add: m)
  also have "\<dots> = asset_ids n"
    using map_nth[of "asset_ids n"] by (simp add: asset_ids_length)
  finally show "map meta_Data_Asset_ID meta = asset_ids n" .
  have len: "length enc = n" using e by (rule sample_length)
  have "\<forall>x\<in>set enc. x \<in> {''Encrypted'', ''Plain''}"
    using e by (rule sample_all) (auto dest: choice_member)
  then show "\<forall>a\<in>set meta. meta_Encryption_Status a \<in> {''Encrypted'', ''Plain''}"
    using len by (auto simp: m)
qed

text \<open>
  C7. The asset generator returns, for every state of the generator, a table of exactly
  \<open>n_assets = 500\<close> assets; their IDs are pairwise different; the ID at position \<open>i\<close>
  (counted from 0) is \<open>ASSET_\<close> followed by \<open>i + 1\<close> written with exactly four
  decimal digits, so the IDs run in sequence from \<open>ASSET_0001\<close> to \<open>ASSET_0500\<close>.
\<close>

theorem asset_generator_ids:
  "\<exists>meta g'. generate_metadata n_assets g = Inr (meta, g')
     \<and> length meta = 500
     \<and> distinct (map meta_Data_Asset_ID meta)
     \<and> (\<forall>i<500. meta_Data_Asset_ID (meta ! i) = asset_pattern (i + 1))
     \<and> meta_Data_Asset_ID (hd meta) = ''ASSET_0001''
     \<and> meta_Data_Asset_ID (last meta) = ''ASSET_0500''"
proof -
  obtain meta g' where gm: "generate_metadata n_assets g = Inr (meta, g')"
    using generate_metadata_total by blast
  have len: "length meta = 500"
    using generate_metadata_rows(1)[OF gm] by (simp add: n_assets_def)
  have ids: "map meta_Data_Asset_ID meta = asset_ids 500"
    using generate_metadata_rows(2)[OF gm] by (simp add: n_assets_def)
  have nth: "meta_Data_Asset_ID (meta ! i) = asset_pattern (i + 1)" if "i < 500" for i
  proof -
    have "meta_Data_Asset_ID (meta ! i) = map meta_Data_Asset_ID meta ! i"
      using that len by simp
    also have "\<dots> = asset_pattern (i + 1)"
      unfolding ids using that by (simp add: asset_ids_pattern)
    finally show ?thesis .
  qed
  have ne: "meta \<noteq> []" using len by auto
  have "meta_Data_Asset_ID (hd meta) = meta_Data_Asset_ID (meta ! 0)"
    using ne by (simp add: hd_conv_nth)
  also have "\<dots> = asset_pattern 1" using nth[of 0] by simp
  also have "\<dots> = ''ASSET_0001''" by (simp add: asset_pattern_def digit_char_def)
  finally have first: "meta_Data_Asset_ID (hd meta) = ''ASSET_0001''" .
  have "meta_Data_Asset_ID (last meta) = meta_Data_Asset_ID (meta ! 499)"
    using ne len by (simp add: last_conv_nth)
  also have "\<dots> = asset_pattern 500" using nth[of 499] by simp
  also have "\<dots> = ''ASSET_0500''" by (simp add: asset_pattern_def digit_char_def)
  finally have final: "meta_Data_Asset_ID (last meta) = ''ASSET_0500''" .
  have "distinct (map meta_Data_Asset_ID meta)"
    unfolding ids by (rule asset_ids_distinct)
  then show ?thesis using gm len nth first final by blast
qed

theorem asset_generator_ids_witness:
  "\<exists>meta g'. generate_metadata n_assets (\<lambda>n. 3 * n + 1) = Inr (meta, g')
     \<and> length meta = 500
     \<and> meta_Data_Asset_ID (meta ! 41) = ''ASSET_0042''
     \<and> meta_Data_Asset_ID (meta ! 41) \<noteq> meta_Data_Asset_ID (meta ! 42)"
proof -
  obtain meta g' where gm: "generate_metadata n_assets (\<lambda>n. 3 * n + 1) = Inr (meta, g')"
    and len: "length meta = 500"
    and d: "distinct (map meta_Data_Asset_ID meta)"
    and nth: "\<forall>i<500. meta_Data_Asset_ID (meta ! i) = asset_pattern (i + 1)"
    using asset_generator_ids[of "\<lambda>n. 3 * n + 1"] by blast
  have "(41::nat) < 500" by simp
  with nth have "meta_Data_Asset_ID (meta ! 41) = asset_pattern (41 + 1)" by blast
  then have a: "meta_Data_Asset_ID (meta ! 41) = ''ASSET_0042''"
    by (simp add: asset_pattern_def digit_char_def)
  have "map meta_Data_Asset_ID meta ! 41 \<noteq> map meta_Data_Asset_ID meta ! 42"
    using nth_eq_iff_index_eq[OF d, of 41 42] len by simp
  then have "meta_Data_Asset_ID (meta ! 41) \<noteq> meta_Data_Asset_ID (meta ! 42)"
    using len by simp
  with gm len a show ?thesis by blast
qed

subsection \<open>The violation labeler\<close>

lemma violation_of_iff:
  "violation_of row \<longleftrightarrow>
     (truthy (PHI_Flag row) \<and> Encryption_Status row = Some ''Plain'')
     \<or> (21 \<le> hour (Timestamp row) \<or> hour (Timestamp row) < 5)
     \<or> IP_Location row \<noteq> ''US''"
  by (simp add: violation_of_def Let_def)

lemma violation_of_set_Policy_Violation:
  "violation_of (set_Policy_Violation r v) = violation_of r"
  by (simp add: violation_of_iff set_Policy_Violation_def)

lemma set_Policy_Violation_twice:
  "set_Policy_Violation (set_Policy_Violation r v) w = set_Policy_Violation r w"
  by (simp add: set_Policy_Violation_def)

lemma set_Policy_Violation_update:
  "(set_Policy_Violation r v)\<lparr>Policy_Violation := w\<rparr> = set_Policy_Violation r w"
  by (simp add: set_Policy_Violation_def)

lemma label_loop_Nil: "label_loop [] df = df"
  by (simp add: label_loop_def)

lemma label_loop_Cons:
  "label_loop ((idx, row) # items) df =
     label_loop items
       (df[idx := (df ! idx)\<lparr>Policy_Violation := (if violation_of row then 1 else 0)\<rparr>])"
  by (simp add: label_loop_def)

lemma label_loop_length: "length (label_loop items df) = length df"
  by (induction items arbitrary: df) (auto simp: label_loop_Nil label_loop_Cons)

lemma label_loop_nth:
  assumes "\<forall>(idx, row)\<in>set items. row = snap ! idx"
    and "i < length df"
  shows "label_loop items df ! i =
           (if i \<in> fst ` set items
            then (df ! i)\<lparr>Policy_Violation := (if violation_of (snap ! i) then 1 else 0)\<rparr>
            else df ! i)"
  using assms
proof (induction items arbitrary: df)
  case Nil
  then show ?case by (simp add: label_loop_Nil)
next
  case (Cons it items)
  obtain idx row where it: "it = (idx, row)" by (cases it)
  have row: "row = snap ! idx" using Cons.prems(1) it by simp
  define df' where
    "df' = df[idx := (df ! idx)\<lparr>Policy_Violation := (if violation_of row then 1 else 0)\<rparr>]"
  have len: "i < length df'" using Cons.prems(2) by (simp add: df'_def)
  have rest: "\<forall>(idx, row)\<in>set items. row = snap ! idx" using Cons.prems(1) by simp
  have step: "label_loop (it # items) df = label_loop items df'"
    by (simp add: it label_loop_Cons df'_def)
  have ih: "label_loop items df' ! i =
           (if i \<in> fst ` set items
            then (df' ! i)\<lparr>Policy_Violation := (if violation_of (snap ! i) then 1 else 0)\<rparr>
            else df' ! i)"
    using Cons.IH[OF rest len] .
  show ?case
  proof (cases "i = idx")
    case True
    then have "df' ! i = (df ! i)\<lparr>Policy_Violation := (if violation_of (snap ! i) then 1 else 0)\<rparr>"
      using Cons.prems(2) row by (simp add: df'_def)
    then show ?thesis unfolding step ih using True it by simp
  next
    case False
    then have "df' ! i = df ! i" by (simp add: df'_def)
    then show ?thesis unfolding step ih using False it by auto
  qed
qed

lemma iterrows_snapshot: "\<forall>(idx, row)\<in>set (iterrows df). row = df ! idx"
  by (auto simp: iterrows_def set_zip)

lemma iterrows_indices: "fst ` set (iterrows df) = {..<length df}"
proof -
  have m: "map fst (zip [0..<length df] df) = [0..<length df]"
    by (rule map_fst_zip) simp
  have "fst ` set (iterrows df) = set (map fst (zip [0..<length df] df))"
    unfolding iterrows_def by (simp only: set_map)
  also have "\<dots> = {..<length df}" unfolding m by (simp add: lessThan_atLeast0)
  finally show ?thesis .
qed

lemma label_loop_any_order:
  assumes "set items = set (iterrows df)"
  shows "label_loop items df =
           map (\<lambda>r. r\<lparr>Policy_Violation := (if violation_of r then 1 else 0)\<rparr>) df"
proof (rule nth_equalityI)
  show "length (label_loop items df) = length (map (\<lambda>r. r\<lparr>Policy_Violation := (if violation_of r then 1 else 0)\<rparr>) df)"
    by (simp add: label_loop_length)
next
  fix i
  assume "i < length (label_loop items df)"
  then have i: "i < length df" by (simp add: label_loop_length)
  have snap: "\<forall>(idx, row)\<in>set items. row = df ! idx"
    unfolding assms by (rule iterrows_snapshot)
  have "i \<in> fst ` set items" unfolding assms iterrows_indices using i by simp
  then show "label_loop items df ! i = map (\<lambda>r. r\<lparr>Policy_Violation := (if violation_of r then 1 else 0)\<rparr>) df ! i"
    using label_loop_nth[OF snap i] i by simp
qed

lemma labeler_map:
  "labeler df = map (\<lambda>r. set_Policy_Violation r (if violation_of r then 1 else 0)) df"
proof -
  have "labeler df =
          map (\<lambda>r. r\<lparr>Policy_Violation := (if violation_of r then 1 else 0)\<rparr>)
            (map (\<lambda>r. set_Policy_Violation r 0) df)"
    unfolding labeler_def Let_def by (rule label_loop_any_order) simp
  then show ?thesis
    by (simp add: o_def set_Policy_Violation_update violation_of_set_Policy_Violation)
qed

lemma labeler_length: "length (labeler df) = length df"
  by (simp add: labeler_map)

lemma labeler_idempotent: "labeler (labeler df) = labeler df"
  by (simp add: labeler_map o_def set_Policy_Violation_twice violation_of_set_Policy_Violation)

text \<open>
  C2. The labeler is a pure function of each row's
  \<open>(PHI_Flag, Encryption_Status, hour, IP_Location)\<close>: running it on its own output gives
  the same table again; the loop may visit the rows in any order (any permutation of
  \<open>iterrows\<close>) with the same result; the label of a row depends on nothing but that
  tuple (two rows with the same tuple, in any two tables at any two positions, get the
  same label), and every other column of the row is passed through.
\<close>

theorem labeler_pure_idempotent:
  fixes df df' :: "'a merged_log_scheme list"
  shows "labeler (labeler df) = labeler df
     \<and> (\<forall>items. mset items = mset (iterrows (map (\<lambda>r. set_Policy_Violation r 0) df))
            \<longrightarrow> label_loop items (map (\<lambda>r. set_Policy_Violation r 0) df) = labeler df)
     \<and> (\<forall>i j. i < length df \<and> j < length df'
            \<and> PHI_Flag (df ! i) = PHI_Flag (df' ! j)
            \<and> Encryption_Status (df ! i) = Encryption_Status (df' ! j)
            \<and> hour (Timestamp (df ! i)) = hour (Timestamp (df' ! j))
            \<and> IP_Location (df ! i) = IP_Location (df' ! j)
            \<longrightarrow> Policy_Violation (labeler df ! i) = Policy_Violation (labeler df' ! j))
     \<and> (\<forall>i<length df.
            labeler df ! i = set_Policy_Violation (df ! i) (Policy_Violation (labeler df ! i)))"
proof (intro conjI allI impI)
  show "labeler (labeler df) = labeler df" by (rule labeler_idempotent)
next
  fix items
  assume m: "mset items = mset (iterrows (map (\<lambda>r. set_Policy_Violation r 0) df))"
  have "set items = set (iterrows (map (\<lambda>r. set_Policy_Violation r 0) df))"
    using arg_cong[OF m, of set_mset] by simp
  then have "label_loop items (map (\<lambda>r. set_Policy_Violation r 0) df) =
          map (\<lambda>r. r\<lparr>Policy_Violation := (if violation_of r then 1 else 0)\<rparr>)
            (map (\<lambda>r. set_Policy_Violation r 0) df)"
    by (rule label_loop_any_order)
  then show "label_loop items (map (\<lambda>r. set_Policy_Violation r 0) df) = labeler df"
    by (simp add: labeler_map o_def set_Policy_Violation_update
        violation_of_set_Policy_Violation)
next
  fix i j
  assume a: "i < length df \<and> j < length df'
            \<and> PHI_Flag (df ! i) = PHI_Flag (df' ! j)
            \<and> Encryption_Status (df ! i) = Encryption_Status (df' ! j)
            \<and> hour (Timestamp (df ! i)) = hour (Timestamp (df' ! j))
            \<and> IP_Location (df ! i) = IP_Location (df' ! j)"
  then have "violation_of (df ! i) = violation_of (df' ! j)"
    by (simp add: violation_of_iff)
  then show "Policy_Violation (labeler df ! i) = Policy_Violation (labeler df' ! j)"
    using a by (simp add: labeler_map set_Policy_Violation_def)
next
  fix i
  assume "i < length df"
  then show "labeler df ! i = set_Policy_Violation (df ! i) (Policy_Violation (labeler df ! i))"
    by (simp add: labeler_map set_Policy_Violation_def)
qed

theorem labeler_pure_idempotent_witness:
  "labeler (labeler [example_row, example_row_eu]) = labeler [example_row, example_row_eu]
   \<and> label_loop (rev (iterrows (map (\<lambda>r. set_Policy_Violation r 0) [example_row, example_row_eu])))
        (map (\<lambda>r. set_Policy_Violation r 0) [example_row, example_row_eu])
       = labeler [example_row, example_row_eu]
   \<and> Policy_Violation (labeler [example_row, example_row_eu] ! 1)
       = Policy_Violation (labeler [example_row_eu] ! 0)
   \<and> map Policy_Violation (labeler [example_row, example_row_eu]) = [0, 1]"
proof -
  note t = labeler_pure_idempotent[of "[example_row, example_row_eu]" "[example_row_eu]"]
  have a: "labeler (labeler [example_row, example_row_eu]) = labeler [example_row, example_row_eu]"
    using t by blast
  have "mset (rev (iterrows (map (\<lambda>r. set_Policy_Violation r 0) [example_row, example_row_eu])))
      = mset (iterrows (map (\<lambda>r. set_Policy_Violation r 0) [example_row, example_row_eu]))"
    by simp
  with t have b: "label_loop (rev (iterrows (map (\<lambda>r. set_Policy_Violation r 0) [example_row, example_row_eu])))
        (map (\<lambda>r. set_Policy_Violation r 0) [example_row, example_row_eu])
       = labeler [example_row, example_row_eu]"
    by blast
  have "(1::nat) < length [example_row, example_row_eu] \<and> (0::nat) < length [example_row_eu]
      \<and> PHI_Flag ([example_row, example_row_eu] ! 1) = PHI_Flag ([example_row_eu] ! 0)
      \<and> Encryption_Status ([example_row, example_row_eu] ! 1) = Encryption_Status ([example_row_eu] ! 0)
      \<and> hour (Timestamp ([example_row, example_row_eu] ! 1)) = hour (Timestamp ([example_row_eu] ! 0))
      \<and> IP_Location ([example_row, example_row_eu] ! 1) = IP_Location ([example_row_eu] ! 0)"
    by simp
  with t have c: "Policy_Violation (labeler [example_row, example_row_eu] ! 1)
       = Policy_Violation (labeler [example_row_eu] ! 0)"
    by blast
  have d: "map Policy_Violation (labeler [example_row, example_row_eu]) = [0, 1]"
    by (simp add: labeler_def label_loop_def iterrows_def set_Policy_Violation_def
        violation_of_def truthy_def example_row_def example_row_eu_def example_time_def Let_def
        upt_rec)
  from a b c d show ?thesis by blast
qed

subsection \<open>One anomaly on one row\<close>

lemma off_hours_choice:
  assumes "choice [21, 22, 23, 0, 1, 2, 3, 4] g = Inr (h, g1)"
  shows "h \<in> {21, 22, 23, 0, 1, 2, 3, 4::nat}"
  using choice_member[OF assms] by simp

lemma apply_anomaly_plain_phi:
  "apply_anomaly ''plain_phi'' meta row g =
     (if plain_phi_assets meta = [] then Inr (row, g)
      else Inr (row\<lparr>Data_Asset_ID := plain_phi_assets meta ! (g 0 mod length (plain_phi_assets meta)),
                    PHI_Flag := Some True, Encryption_Status := Some ''Plain''\<rparr>,
                \<lambda>n. g (Suc n)))"
  by (simp add: apply_anomaly_def choice_Inr)

lemma apply_anomaly_off_hours:
  "apply_anomaly ''off_hours'' meta row g =
     Inr (row\<lparr>Timestamp := (Timestamp row)
                 \<lparr>hour := [21, 22, 23, 0, 1, 2, 3, 4] ! (g 0 mod 8), minute := g (Suc 0) mod 60\<rparr>\<rparr>,
          \<lambda>n. g (Suc (Suc n)))"
proof -
  define h :: nat where "h = [21, 22, 23, 0, 1, 2, 3, 4] ! (g 0 mod 8)"
  have c: "choice [21, 22, 23, 0, 1, 2, 3, 4::nat] g = Inr (h, \<lambda>n. g (Suc n))"
    by (simp add: choice_def next_raw_def h_def)
  have "h \<in> {21, 22, 23, 0, 1, 2, 3, 4}" using off_hours_choice[OF c] .
  then have h: "\<not> 23 < h" by auto
  have m: "\<not> 59 < g (Suc 0) mod 60"
    using mod_less_divisor[of 60 "g (Suc 0)"] by linarith
  have r: "randint 0 60 (\<lambda>n. g (Suc n)) = Inr (g (Suc 0) mod 60, \<lambda>n. g (Suc (Suc n)))"
    by (simp add: randint_Inr)
  have t: "timestamp_replace (Timestamp row) h (g (Suc 0) mod 60)
             = Inr ((Timestamp row)\<lparr>hour := h, minute := g (Suc 0) mod 60\<rparr>)"
    using h m by (simp add: timestamp_replace_def)
  have "apply_anomaly ''off_hours'' meta row g =
     Inr (row\<lparr>Timestamp := (Timestamp row)\<lparr>hour := h, minute := g (Suc 0) mod 60\<rparr>\<rparr>,
          \<lambda>n. g (Suc (Suc n)))"
    unfolding apply_anomaly_def c by (simp add: r t)
  then show ?thesis unfolding h_def .
qed

lemma apply_anomaly_non_us:
  "apply_anomaly ''non_us'' meta row g =
     Inr (row\<lparr>IP_Location := [''EU'', ''AS''] ! (g 0 mod 2)\<rparr>, \<lambda>n. g (Suc n))"
proof -
  have c: "choice [''EU'', ''AS''] g = Inr ([''EU'', ''AS''] ! (g 0 mod 2), \<lambda>n. g (Suc n))"
    by (simp add: choice_def next_raw_def numeral_2_eq_2)
  show ?thesis unfolding apply_anomaly_def c by simp
qed

lemma apply_anomaly_other:
  "ty \<noteq> ''plain_phi'' \<Longrightarrow> ty \<noteq> ''off_hours'' \<Longrightarrow> ty \<noteq> ''non_us''
     \<Longrightarrow> apply_anomaly ty meta row g = Inr (row, g)"
  by (simp add: apply_anomaly_def)

lemma apply_anomaly_total: "\<exists>row' g'. apply_anomaly ty meta row g = Inr (row', g')"
proof -
  consider "ty = ''plain_phi''" | "ty = ''off_hours''" | "ty = ''non_us''"
    | "ty \<noteq> ''plain_phi''" "ty \<noteq> ''off_hours''" "ty \<noteq> ''non_us''" by blast
  then show ?thesis
  proof cases
    case 1
    then show ?thesis by (simp add: apply_anomaly_plain_phi)
  next
    case 2
    then show ?thesis by (simp add: apply_anomaly_off_hours)
  next
    case 3
    then show ?thesis by (simp add: apply_anomaly_non_us)
  next
    case 4
    then show ?thesis by (simp add: apply_anomaly_other)
  qed
qed

lemma make_anomaly_eq:
  "make_anomaly meta row g =
     apply_anomaly ([''plain_phi'', ''off_hours'', ''non_us''] ! (g 0 mod 3)) meta row
       (\<lambda>n. g (Suc n))"
proof -
  have c: "choice [''plain_phi'', ''off_hours'', ''non_us''] g
             = Inr ([''plain_phi'', ''off_hours'', ''non_us''] ! (g 0 mod 3), \<lambda>n. g (Suc n))"
    by (simp add: choice_def next_raw_def)
  show ?thesis unfolding make_anomaly_def c by simp
qed

lemma anomaly_type_cases:
  "[''plain_phi'', ''off_hours'', ''non_us''] ! (r mod 3) \<in> {''plain_phi'', ''off_hours'', ''non_us''}"
proof -
  have "r mod 3 < 3" by simp
  then consider "r mod 3 = 0" | "r mod 3 = 1" | "r mod 3 = 2" by linarith
  then show ?thesis by cases simp_all
qed

lemma make_anomaly_total: "\<exists>row' g'. make_anomaly meta row g = Inr (row', g')"
  unfolding make_anomaly_eq by (rule apply_anomaly_total)

lemma eu_as_cases: "[''EU'', ''AS''] ! (r mod 2) \<in> {''EU'', ''AS''}"
proof -
  have "r mod 2 < 2" by simp
  then consider "r mod 2 = 0" | "r mod 2 = 1" by linarith
  then show ?thesis by cases simp_all
qed

lemma off_hours_cases: "[21, 22, 23, 0, 1, 2, 3, 4] ! (r mod 8) \<in> {21, 22, 23, 0, 1, 2, 3, 4::nat}"
proof -
  have "choice [21, 22, 23, 0, 1, 2, 3, 4::nat] (\<lambda>n. r)
          = Inr ([21, 22, 23, 0, 1, 2, 3, 4] ! (r mod 8), \<lambda>n. r)"
    by (simp add: choice_def next_raw_def)
  then show ?thesis by (rule off_hours_choice)
qed

subsection \<open>The injection loop\<close>

lemma select_anomaly_indices_props:
  assumes "select_anomaly_indices k df g = (idxs, g1)"
  shows "distinct idxs"
    and "set idxs \<subseteq> {..<length df}"
    and "length idxs = min k (length df)"
    and "idxs = take k (fst (shuffle [0..<length df] g))"
proof -
  obtain sh g' where s: "shuffle [0..<length df] g = (sh, g')" by (cases "shuffle [0..<length df] g")
  have sh: "sh = fst (shuffle [0..<length df] g)" by (simp add: s)
  have idxs: "idxs = take k sh"
    using assms by (simp add: select_anomaly_indices_def s)
  have d: "distinct sh" unfolding sh by (rule shuffle_distinct) simp
  have st: "set sh = {..<length df}" unfolding sh shuffle_set by (simp add: lessThan_atLeast0)
  have l: "length sh = length df" unfolding sh shuffle_length by simp
  show "distinct idxs" unfolding idxs using d by (rule distinct_take)
  show "set idxs \<subseteq> {..<length df}" unfolding idxs using set_take_subset[of k sh] st by blast
  show "length idxs = min k (length df)" unfolding idxs by (simp add: l min.commute)
  show "idxs = take k (fst (shuffle [0..<length df] g))" unfolding idxs sh ..
qed

lemma anomaly_loop_total:
  assumes "set idxs \<subseteq> {..<length df}"
  shows "\<exists>rows g'. anomaly_loop meta df idxs g = Inr (rows, g')"
  using assms
proof (induction idxs arbitrary: g)
  case Nil
  show ?case by simp
next
  case (Cons idx idxs)
  have l: "loc df idx = Inr (df ! idx)" using Cons.prems by (simp add: loc_def)
  obtain row' g1 where m: "make_anomaly meta (df ! idx) g = Inr (row', g1)"
    using make_anomaly_total by blast
  obtain rows g2 where r: "anomaly_loop meta df idxs g1 = Inr (rows, g2)"
    using Cons.IH[of g1] Cons.prems by auto
  show ?case by (simp add: l m r)
qed

lemma anomaly_loop_rows:
  assumes "anomaly_loop meta df idxs g = Inr (rows, g')"
  shows "length rows = length idxs \<and>
         (\<forall>k<length idxs. idxs ! k < length df \<and>
            (\<exists>h h'. make_anomaly meta (df ! (idxs ! k)) h = Inr (rows ! k, h')))"
  using assms
proof (induction idxs arbitrary: g rows)
  case Nil
  then show ?case by simp
next
  case (Cons idx idxs)
  from Cons.prems obtain row' g1 rows' where
    i: "idx < length df" and
    m: "make_anomaly meta (df ! idx) g = Inr (row', g1)" and
    r: "anomaly_loop meta df idxs g1 = Inr (rows', g')" and
    rows: "rows = row' # rows'"
    by (auto simp: loc_def split: sum.splits prod.splits if_splits)
  note ih = Cons.IH[OF r]
  have A: "length rows = length (idx # idxs)" using ih rows by simp
  have B: "(idx # idxs) ! k < length df \<and>
            (\<exists>h h'. make_anomaly meta (df ! ((idx # idxs) ! k)) h = Inr (rows ! k, h'))"
    if k: "k < length (idx # idxs)" for k
  proof (cases k)
    case 0
    then show ?thesis using i m rows by auto
  next
    case (Suc k')
    then have "k' < length idxs" using k by simp
    then show ?thesis using ih Suc rows by simp
  qed
  show ?case using A B by blast
qed

lemma write_rows_Nil: "write_rows df [] rows = df"
  by (simp add: write_rows_def)

lemma write_rows_Cons:
  "write_rows df (idx # idxs) (row # rows) = write_rows (df[idx := row]) idxs rows"
  by (simp add: write_rows_def)

lemma fold_update_length:
  "length (fold (\<lambda>(idx, row) d. d[idx := row]) ps df) = length df"
  by (induction ps arbitrary: df) (auto simp: split_beta)

lemma write_rows_length: "length (write_rows df idxs rows) = length df"
  by (simp add: write_rows_def fold_update_length)

lemma fold_update_other:
  "i \<notin> fst ` set ps \<Longrightarrow> fold (\<lambda>(idx, row) d. d[idx := row]) ps df ! i = df ! i"
  by (induction ps arbitrary: df) (auto simp: split_beta)

lemma write_rows_other:
  assumes "i \<notin> set idxs"
  shows "write_rows df idxs rows ! i = df ! i"
proof -
  have "fst ` set (zip idxs rows) \<subseteq> set idxs"
    by (auto dest: set_zip_leftD)
  then have "i \<notin> fst ` set (zip idxs rows)" using assms by blast
  then show ?thesis unfolding write_rows_def by (rule fold_update_other)
qed

lemma write_rows_selected:
  assumes "distinct idxs" and "length rows = length idxs"
    and "\<forall>k<length idxs. idxs ! k < length df" and "k < length idxs"
  shows "write_rows df idxs rows ! (idxs ! k) = rows ! k"
  using assms
proof (induction idxs arbitrary: df rows k)
  case Nil
  then show ?case by simp
next
  case (Cons idx idxs)
  obtain row rows' where rows: "rows = row # rows'"
    using Cons.prems(2) by (cases rows) auto
  have d: "distinct idxs" and ni: "idx \<notin> set idxs" using Cons.prems(1) by auto
  have l: "length rows' = length idxs" using Cons.prems(2) rows by simp
  have r: "\<forall>k<length idxs. idxs ! k < length (df[idx := row])"
    using Cons.prems(3) by auto
  have i: "idx < length df" using Cons.prems(3) by auto
  show ?case
  proof (cases k)
    case 0
    have "write_rows (df[idx := row]) idxs rows' ! idx = (df[idx := row]) ! idx"
      using ni by (rule write_rows_other)
    then show ?thesis using 0 rows i by (simp add: write_rows_Cons)
  next
    case (Suc k')
    then have "k' < length idxs" using Cons.prems(4) by simp
    then have "write_rows (df[idx := row]) idxs rows' ! (idxs ! k') = rows' ! k'"
      using Cons.IH[OF d l r] by blast
    then show ?thesis using Suc rows by (simp add: write_rows_Cons)
  qed
qed

subsection \<open>The injection block\<close>

lemma loc_assign_Inr:
  assumes "indices \<noteq> [] \<or> length rows = length df"
  shows "loc_assign df indices rows = Inr (write_rows df indices rows)"
  using assms by (auto simp: loc_assign_def)

lemma inject_anomalies_total:
  assumes "0 < k \<or> df = []"
  shows "\<exists>idxs rows df' g'. inject_anomalies k df meta g = Inr ((idxs, rows, df'), g')"
proof -
  obtain idxs g1 where s: "select_anomaly_indices k df g = (idxs, g1)"
    by (cases "select_anomaly_indices k df g")
  note p = select_anomaly_indices_props[OF s]
  obtain rows g2 where l: "anomaly_loop meta df idxs g1 = Inr (rows, g2)"
    using anomaly_loop_total[OF p(2)] by blast
  have len: "length rows = length idxs" using anomaly_loop_rows[OF l] by simp
  have "idxs \<noteq> [] \<or> length rows = length df"
  proof (cases "df = []")
    case True
    then show ?thesis using len p(3) by simp
  next
    case False
    then have "0 < k" using assms by simp
    then have "0 < length idxs" using p(3) False by simp
    then show ?thesis by auto
  qed
  then have a: "loc_assign df idxs rows = Inr (write_rows df idxs rows)"
    by (rule loc_assign_Inr)
  show ?thesis by (simp add: inject_anomalies_def s l a)
qed

lemma inject_anomalies_raises:
  assumes "df \<noteq> []"
  shows "inject_anomalies 0 df meta g = Inl ValueError"
proof -
  obtain sh g1 where s: "shuffle [0..<length df] g = (sh, g1)"
    by (cases "shuffle [0..<length df] g")
  have "loc_assign df [] [] = Inl ValueError" using assms by (simp add: loc_assign_def)
  then show ?thesis by (simp add: inject_anomalies_def select_anomaly_indices_def s)
qed

lemma inject_anomalies_trace:
  assumes "inject_anomalies k df meta g = Inr ((idxs, rows, df'), g')"
  shows "distinct idxs"
    and "set idxs \<subseteq> {..<length df}"
    and "length idxs = min k (length df)"
    and "idxs = take k (fst (shuffle [0..<length df] g))"
    and "length rows = length idxs"
    and "length df' = length df"
    and "\<forall>i<length df. i \<notin> set idxs \<longrightarrow> df' ! i = df ! i"
    and "\<forall>j<length idxs. df' ! (idxs ! j) = rows ! j \<and>
           (\<exists>h h'. make_anomaly meta (df ! (idxs ! j)) h = Inr (rows ! j, h'))"
proof -
  obtain g1 where s: "select_anomaly_indices k df g = (idxs, g1)"
    and l: "anomaly_loop meta df idxs g1 = Inr (rows, g')"
    and d: "df' = write_rows df idxs rows"
    using assms
    by (auto simp: inject_anomalies_def loc_assign_def split: sum.splits prod.splits if_splits)
  note p = select_anomaly_indices_props[OF s]
  note r = anomaly_loop_rows[OF l]
  show "distinct idxs" by (rule p(1))
  show "set idxs \<subseteq> {..<length df}" by (rule p(2))
  show "length idxs = min k (length df)" by (rule p(3))
  show "idxs = take k (fst (shuffle [0..<length df] g))" by (rule p(4))
  show "length rows = length idxs" using r by blast
  show "length df' = length df" by (simp add: d write_rows_length)
  show "\<forall>i<length df. i \<notin> set idxs \<longrightarrow> df' ! i = df ! i"
    by (simp add: d write_rows_other)
  have in_range: "\<forall>j<length idxs. idxs ! j < length df" using r by blast
  have len: "length rows = length idxs" using r by blast
  show "\<forall>j<length idxs. df' ! (idxs ! j) = rows ! j \<and>
           (\<exists>h h'. make_anomaly meta (df ! (idxs ! j)) h = Inr (rows ! j, h'))"
    using write_rows_selected[OF p(1) len in_range] r by (simp add: d)
qed

lemma inject_anomalies_rows:
  assumes "inject_anomalies k df meta g = Inr ((idxs, rows, df'), g')"
    and "r' \<in> set df'"
  shows "r' \<in> set df \<or> (\<exists>r\<in>set df. \<exists>h h'. make_anomaly meta r h = Inr (r', h'))"
proof -
  note t = inject_anomalies_trace[OF assms(1)]
  obtain i where i: "i < length df'" and r': "r' = df' ! i"
    using assms(2) by (auto simp: in_set_conv_nth)
  have il: "i < length df" using i t(6) by simp
  show ?thesis
  proof (cases "i \<in> set idxs")
    case False
    then have "df' ! i = df ! i" using t(7) il by blast
    then show ?thesis using r' il by auto
  next
    case True
    then obtain j where j: "j < length idxs" and ij: "idxs ! j = i"
      by (auto simp: in_set_conv_nth)
    then obtain h h' where "make_anomaly meta (df ! i) h = Inr (df' ! i, h')"
      using t(8) by metis
    then show ?thesis using r' il by (metis nth_mem)
  qed
qed

subsection \<open>Log generation and the join\<close>

lemma draw_timestamp_total: "\<exists>t g'. draw_timestamp g = Inr (t, g')"
  by (simp add: draw_timestamp_def randint_Inr)

lemma generate_access_logs_total:
  assumes "meta \<noteq> []" and "0 < nu"
  shows "\<exists>logs g'. generate_access_logs nl nu meta g = Inr (logs, g')"
proof -
  obtain ts g1 where a: "sample nl draw_timestamp g = Inr (ts, g1)"
    using sample_total[of draw_timestamp nl g] draw_timestamp_total by blast
  have rt: "\<exists>x h'. randint (Suc 0) (Suc nu) h = Inr (x, h')" for h
    using assms(2) by (simp add: randint_def next_raw_def)
  obtain us g2 where b: "sample nl (randint (Suc 0) (Suc nu)) g1 = Inr (us, g2)"
    using sample_total[of "randint (Suc 0) (Suc nu)" nl g1, OF rt] by blast
  obtain as g3 where c: "sample nl (choice (map meta_Data_Asset_ID meta)) g2 = Inr (as, g3)"
    using sample_total[of "choice (map meta_Data_Asset_ID meta)" nl g2] assms
    by (auto simp: choice_Inr)
  obtain tys g4 where d: "sample nl (choice [''Read'', ''Write'']) g3 = Inr (tys, g4)"
    using sample_total[of "choice [''Read'', ''Write'']" nl g3] by (auto simp: choice_Inr)
  obtain ips g5 where e: "sample nl (choice [''US'', ''EU'', ''AS'']) g4 = Inr (ips, g5)"
    using sample_total[of "choice [''US'', ''EU'', ''AS'']" nl g4] by (auto simp: choice_Inr)
  show ?thesis by (simp add: generate_access_logs_def a b c d e)
qed

lemma sample_choice_nth:
  assumes "sample n (choice a) g = Inr (xs, g')" and "i < n"
  shows "xs ! i \<in> set a"
proof -
  have len: "length xs = n" using assms(1) by (rule sample_length)
  have "\<forall>x\<in>set xs. x \<in> set a"
    using assms(1) by (rule sample_all) (rule choice_member)
  then show ?thesis using len assms(2) by simp
qed

lemma generate_access_logs_Inr:
  assumes "generate_access_logs nl nu meta g = Inr (logs, g')"
  obtains ts us as tys ips g2 g3 where
    "sample nl (choice (map meta_Data_Asset_ID meta)) g2 = Inr (as, g3)"
    "logs = map (\<lambda>i. \<lparr>Timestamp = ts ! i,
                        User_ID = ''USER_'' @ format_0d 3 (us ! i),
                        Data_Asset_ID = as ! i,
                        Access_Type = tys ! i,
                        IP_Location = ips ! i\<rparr>) [0..<nl]"
  using assms unfolding generate_access_logs_def
  by (auto split: sum.splits prod.splits simp del: map_eq_conv)

lemma generate_access_logs_rows:
  assumes "generate_access_logs nl nu meta g = Inr (logs, g')"
  shows "length logs = nl"
    and "\<forall>r\<in>set logs. Data_Asset_ID r \<in> set (map meta_Data_Asset_ID meta)"
proof -
  from assms obtain ts us as tys ips g2 g3 where
    c: "sample nl (choice (map meta_Data_Asset_ID meta)) g2 = Inr (as, g3)" and
    l: "logs = map (\<lambda>i. \<lparr>Timestamp = ts ! i,
                        User_ID = ''USER_'' @ format_0d 3 (us ! i),
                        Data_Asset_ID = as ! i,
                        Access_Type = tys ! i,
                        IP_Location = ips ! i\<rparr>) [0..<nl]"
    by (rule generate_access_logs_Inr)
  show "length logs = nl" by (simp add: l)
  have "as ! i \<in> set (map meta_Data_Asset_ID meta)" if "i < nl" for i
    using c that by (rule sample_choice_nth)
  then show "\<forall>r\<in>set logs. Data_Asset_ID r \<in> set (map meta_Data_Asset_ID meta)"
    unfolding l by auto
qed

lemma filter_key_distinct:
  assumes "distinct (map f xs)" and "x \<in> set xs"
  shows "filter (\<lambda>a. f a = f x) xs = [x]"
  using assms
proof (induction xs)
  case Nil
  then show ?case by simp
next
  case (Cons y ys)
  show ?case
  proof (cases "y = x")
    case True
    have "f x \<notin> f ` set ys" using Cons.prems(1) True by simp
    then have "\<forall>a\<in>set ys. f a \<noteq> f x" by (metis imageI)
    then have "filter (\<lambda>a. f a = f x) ys = []" by (simp add: filter_empty_conv)
    then show ?thesis using True by simp
  next
    case False
    then have x: "x \<in> set ys" using Cons.prems(2) by simp
    have "f y \<noteq> f x" using Cons.prems(1) x by auto
    then show ?thesis using Cons.IH x Cons.prems(1) by simp
  qed
qed

lemma merge_row_match:
  assumes "distinct (map meta_Data_Asset_ID meta)"
    and "Data_Asset_ID r \<in> set (map meta_Data_Asset_ID meta)"
  shows "\<exists>a\<in>set meta. meta_Data_Asset_ID a = Data_Asset_ID r \<and>
           merge_row meta r =
             [\<lparr>Timestamp = Timestamp r, User_ID = User_ID r, Data_Asset_ID = Data_Asset_ID r,
               Access_Type = Access_Type r, IP_Location = IP_Location r,
               PHI_Flag = Some (meta_PHI_Flag a),
               Encryption_Status = Some (meta_Encryption_Status a)\<rparr>]"
proof -
  obtain a where a: "a \<in> set meta" and id: "meta_Data_Asset_ID a = Data_Asset_ID r"
    using assms(2) by auto
  have "filter (\<lambda>b. meta_Data_Asset_ID b = meta_Data_Asset_ID a) meta = [a]"
    using assms(1) a by (rule filter_key_distinct)
  then have "filter (\<lambda>b. meta_Data_Asset_ID b = Data_Asset_ID r) meta = [a]"
    by (simp add: id)
  then show ?thesis using a id by (auto simp: merge_row_def)
qed

lemma merge_left_rows:
  assumes "distinct (map meta_Data_Asset_ID meta)"
    and "\<forall>r\<in>set logs. Data_Asset_ID r \<in> set (map meta_Data_Asset_ID meta)"
  shows "length (merge_left logs meta) = length logs \<and>
         (\<forall>i<length logs. merge_row meta (logs ! i) = [merge_left logs meta ! i])"
  using assms(2)
proof (induction logs)
  case Nil
  then show ?case by (simp add: merge_left_def)
next
  case (Cons r logs)
  obtain m where m: "merge_row meta r = [m]"
    using merge_row_match[OF assms(1), of r] Cons.prems by auto
  have ih: "length (merge_left logs meta) = length logs \<and>
         (\<forall>i<length logs. merge_row meta (logs ! i) = [merge_left logs meta ! i])"
    using Cons by simp
  have c: "merge_left (r # logs) meta = m # merge_left logs meta"
    by (simp add: merge_left_def m)
  have "merge_row meta ((r # logs) ! i) = [merge_left (r # logs) meta ! i]"
    if "i < length (r # logs)" for i
    using that ih m unfolding c by (cases i) auto
  then show ?case using ih unfolding c by simp
qed

subsection \<open>Invariants of a run\<close>

lemma merge_left_consistent:
  assumes "distinct (map meta_Data_Asset_ID meta)"
    and "\<forall>r\<in>set logs. Data_Asset_ID r \<in> set (map meta_Data_Asset_ID meta)"
  shows "length (merge_left logs meta) = length logs"
    and "\<forall>r\<in>set (merge_left logs meta). consistent_with meta r"
    and "\<forall>i<length logs. Data_Asset_ID (merge_left logs meta ! i) = Data_Asset_ID (logs ! i)"
proof -
  note m = merge_left_rows[OF assms]
  show len: "length (merge_left logs meta) = length logs" using m by blast
  have row: "consistent_with meta (merge_left logs meta ! i)
              \<and> Data_Asset_ID (merge_left logs meta ! i) = Data_Asset_ID (logs ! i)"
    if i: "i < length logs" for i
  proof -
    have r: "Data_Asset_ID (logs ! i) \<in> set (map meta_Data_Asset_ID meta)"
      using assms(2) i by (meson nth_mem)
    obtain a where a: "a \<in> set meta" "meta_Data_Asset_ID a = Data_Asset_ID (logs ! i)"
      and mr: "merge_row meta (logs ! i) =
             [\<lparr>Timestamp = Timestamp (logs ! i), User_ID = User_ID (logs ! i),
               Data_Asset_ID = Data_Asset_ID (logs ! i),
               Access_Type = Access_Type (logs ! i), IP_Location = IP_Location (logs ! i),
               PHI_Flag = Some (meta_PHI_Flag a),
               Encryption_Status = Some (meta_Encryption_Status a)\<rparr>]"
      using merge_row_match[OF assms(1) r] by blast
    have "merge_row meta (logs ! i) = [merge_left logs meta ! i]" using m i by blast
    then have "merge_left logs meta ! i =
             \<lparr>Timestamp = Timestamp (logs ! i), User_ID = User_ID (logs ! i),
               Data_Asset_ID = Data_Asset_ID (logs ! i),
               Access_Type = Access_Type (logs ! i), IP_Location = IP_Location (logs ! i),
               PHI_Flag = Some (meta_PHI_Flag a),
               Encryption_Status = Some (meta_Encryption_Status a)\<rparr>"
      using mr by simp
    then show ?thesis using a by (auto simp: consistent_with_def)
  qed
  show "\<forall>r\<in>set (merge_left logs meta). consistent_with meta r"
    using row len by (auto simp: in_set_conv_nth)
  show "\<forall>i<length logs. Data_Asset_ID (merge_left logs meta ! i) = Data_Asset_ID (logs ! i)"
    using row by blast
qed

lemma plain_phi_assets_member:
  assumes "x \<in> set (plain_phi_assets meta)"
  shows "\<exists>a\<in>set meta. meta_Data_Asset_ID a = x \<and> meta_PHI_Flag a
           \<and> meta_Encryption_Status a = ''Plain''"
  using assms by (auto simp: plain_phi_assets_def)

lemma apply_anomaly_consistent:
  assumes "consistent_with meta r" and "apply_anomaly ty meta r h = Inr (r', h')"
  shows "consistent_with meta r'"
proof -
  consider "ty = ''plain_phi''" "plain_phi_assets meta = []"
    | "ty = ''plain_phi''" "plain_phi_assets meta \<noteq> []"
    | "ty = ''off_hours''" | "ty = ''non_us''"
    | "ty \<noteq> ''plain_phi''" "ty \<noteq> ''off_hours''" "ty \<noteq> ''non_us''" by blast
  then show ?thesis
  proof cases
    case 1
    then show ?thesis using assms by (simp add: apply_anomaly_plain_phi)
  next
    case 2
    define x where "x = plain_phi_assets meta ! (h 0 mod length (plain_phi_assets meta))"
    have "x \<in> set (plain_phi_assets meta)" unfolding x_def using 2(2) by simp
    then obtain a where "a \<in> set meta" "meta_Data_Asset_ID a = x" "meta_PHI_Flag a"
      "meta_Encryption_Status a = ''Plain''"
      using plain_phi_assets_member by blast
    moreover have "r' = r\<lparr>Data_Asset_ID := x, PHI_Flag := Some True,
                            Encryption_Status := Some ''Plain''\<rparr>"
      using assms(2) 2 by (simp add: apply_anomaly_plain_phi x_def)
    ultimately show ?thesis by (auto simp: consistent_with_def)
  next
    case 3
    then show ?thesis using assms by (auto simp: apply_anomaly_off_hours consistent_with_def)
  next
    case 4
    then show ?thesis using assms by (auto simp: apply_anomaly_non_us consistent_with_def)
  next
    case 5
    then show ?thesis using assms by (simp add: apply_anomaly_other)
  qed
qed

lemma make_anomaly_consistent:
  assumes "consistent_with meta r" and "make_anomaly meta r h = Inr (r', h')"
  shows "consistent_with meta r'"
  using assms(2) unfolding make_anomaly_eq by (rule apply_anomaly_consistent[OF assms(1)])

lemma inject_anomalies_consistent:
  assumes "inject_anomalies k df meta g = Inr ((idxs, rows, df'), g')"
    and "\<forall>r\<in>set df. consistent_with meta r"
  shows "\<forall>r\<in>set df'. consistent_with meta r"
proof
  fix r' assume "r' \<in> set df'"
  then have "r' \<in> set df \<or> (\<exists>r\<in>set df. \<exists>h h'. make_anomaly meta r h = Inr (r', h'))"
    by (rule inject_anomalies_rows[OF assms(1)])
  then show "consistent_with meta r'"
    using assms(2) make_anomaly_consistent by blast
qed

lemma labeler_consistent:
  "consistent_with meta (labeler df ! i) = consistent_with meta (df ! i)" if "i < length df"
  using that by (simp add: labeler_map consistent_with_def set_Policy_Violation_def)

lemma pipeline_Inr:
  assumes "pipeline na nl nu nk g = Inr run"
  obtains g1 g2 g3 where
    "generate_metadata na g = Inr (df_metadata run, g1)"
    "generate_access_logs nl nu (df_metadata run) g1 = Inr (generated_logs run, g2)"
    "merged_logs run = merge_left (generated_logs run) (df_metadata run)"
    "inject_anomalies nk (merged_logs run) (df_metadata run) g2
       = Inr ((anomaly_indices run, anomaly_rows run, injected_logs run), g3)"
    "df_access_logs run = labeler (injected_logs run)"
  using assms unfolding pipeline_def
  by (auto split: sum.splits prod.splits)

lemma pipeline_total:
  assumes "0 < na" and "0 < nu" and "0 < nk \<or> nl = 0"
  shows "\<exists>run. pipeline na nl nu nk g = Inr run"
proof -
  obtain meta g1 where m: "generate_metadata na g = Inr (meta, g1)"
    using generate_metadata_total by blast
  have "length meta = na" using generate_metadata_rows(1)[OF m] .
  then have ne: "meta \<noteq> []" using assms(1) by auto
  obtain logs g2 where l: "generate_access_logs nl nu meta g1 = Inr (logs, g2)"
    using generate_access_logs_total[OF ne assms(2)] by blast
  have "length logs = nl" using generate_access_logs_rows(1)[OF l] .
  then have "0 < nk \<or> merge_left logs meta = []"
    using assms(3) by (auto simp: merge_left_def)
  then obtain idxs rows df' g3 where
    i: "inject_anomalies nk (merge_left logs meta) meta g2 = Inr ((idxs, rows, df'), g3)"
    using inject_anomalies_total by blast
  show ?thesis by (simp add: pipeline_def m l i)
qed

lemma pipeline_tables:
  assumes "pipeline na nl nu nk g = Inr run"
  shows "length (df_metadata run) = na"
    and "map meta_Data_Asset_ID (df_metadata run) = asset_ids na"
    and "length (generated_logs run) = nl"
    and "\<forall>r\<in>set (generated_logs run).
           Data_Asset_ID r \<in> set (map meta_Data_Asset_ID (df_metadata run))"
    and "length (merged_logs run) = nl"
    and "\<forall>r\<in>set (merged_logs run). consistent_with (df_metadata run) r"
    and "length (injected_logs run) = nl"
    and "\<forall>r\<in>set (injected_logs run). consistent_with (df_metadata run) r"
    and "length (df_access_logs run) = nl"
    and "\<forall>r\<in>set (df_access_logs run). consistent_with (df_metadata run) r"
proof -
  from assms obtain g1 g2 g3 where
    m: "generate_metadata na g = Inr (df_metadata run, g1)" and
    l: "generate_access_logs nl nu (df_metadata run) g1 = Inr (generated_logs run, g2)" and
    j: "merged_logs run = merge_left (generated_logs run) (df_metadata run)" and
    i: "inject_anomalies nk (merged_logs run) (df_metadata run) g2
       = Inr ((anomaly_indices run, anomaly_rows run, injected_logs run), g3)" and
    f: "df_access_logs run = labeler (injected_logs run)"
    by (rule pipeline_Inr)
  show "length (df_metadata run) = na" using generate_metadata_rows(1)[OF m] .
  show ids: "map meta_Data_Asset_ID (df_metadata run) = asset_ids na"
    using generate_metadata_rows(2)[OF m] .
  have d: "distinct (map meta_Data_Asset_ID (df_metadata run))"
    unfolding ids by (rule asset_ids_distinct)
  show gl: "length (generated_logs run) = nl" using generate_access_logs_rows(1)[OF l] .
  show ref: "\<forall>r\<in>set (generated_logs run).
           Data_Asset_ID r \<in> set (map meta_Data_Asset_ID (df_metadata run))"
    using generate_access_logs_rows(2)[OF l] .
  note mc = merge_left_consistent[OF d ref]
  show ml: "length (merged_logs run) = nl" unfolding j using mc(1) gl by simp
  show c1: "\<forall>r\<in>set (merged_logs run). consistent_with (df_metadata run) r"
    unfolding j using mc(2) .
  show il: "length (injected_logs run) = nl"
    using inject_anomalies_trace(6)[OF i] ml by simp
  show c2: "\<forall>r\<in>set (injected_logs run). consistent_with (df_metadata run) r"
    using inject_anomalies_consistent[OF i c1] .
  show "length (df_access_logs run) = nl" unfolding f labeler_length using il .
  show "\<forall>r\<in>set (df_access_logs run). consistent_with (df_metadata run) r"
  proof
    fix r assume "r \<in> set (df_access_logs run)"
    then obtain i where i: "i < length (injected_logs run)"
      and r: "r = labeler (injected_logs run) ! i"
      unfolding f by (auto simp: in_set_conv_nth labeler_length)
    have "consistent_with (df_metadata run) (injected_logs run ! i)"
      using c2 i by (meson nth_mem)
    then show "consistent_with (df_metadata run) r"
      unfolding r using labeler_consistent[OF i] by blast
  qed
qed

subsection \<open>The label rule and referential integrity\<close>

lemma labeler_row:
  assumes "r \<in> set (labeler df)"
  shows "Policy_Violation r = (if violation_of r then 1 else 0)"
proof -
  obtain r0 where "r0 \<in> set df"
    and "r = set_Policy_Violation r0 (if violation_of r0 then 1 else 0)"
    using assms unfolding labeler_map by auto
  then show ?thesis
    by (simp add: violation_of_set_Policy_Violation) (simp add: set_Policy_Violation_def)
qed

lemma consistent_with_truthy:
  assumes "consistent_with meta r"
  shows "truthy (PHI_Flag r) \<longleftrightarrow> PHI_Flag r = Some True"
  using assms by (auto simp: consistent_with_def truthy_def)

text \<open>
  C1. In every run of the script (any number of assets, of users and of anomalies above
  zero, any generator state), the run completes and each row of the final log table has
  \<open>Policy_Violation = 1\<close> exactly when, on that row's own final values,
  \<open>PHI_Flag\<close> is true and \<open>Encryption_Status\<close> is \<open>Plain\<close>, or the hour of
  \<open>Timestamp\<close> is at least 21 or below 5, or \<open>IP_Location\<close> is not \<open>US\<close>; it is 0
  otherwise. The labeler writes no other column. The same holds for the labeler on any
  table whose \<open>PHI_Flag\<close> cell is a boolean.
\<close>

theorem policy_violation_rule:
  fixes df :: "'a merged_log_scheme list"
  assumes "0 < na" and "0 < nu" and "0 < nk \<or> nl = 0"
  shows "(\<exists>run. pipeline na nl nu nk g = Inr run
            \<and> length (df_access_logs run) = nl
            \<and> (\<forall>r\<in>set (df_access_logs run).
                  Policy_Violation r =
                    (if (PHI_Flag r = Some True \<and> Encryption_Status r = Some ''Plain'')
                        \<or> (21 \<le> hour (Timestamp r) \<or> hour (Timestamp r) < 5)
                        \<or> IP_Location r \<noteq> ''US''
                     then 1 else 0))
            \<and> (\<forall>i<nl. df_access_logs run ! i =
                  set_Policy_Violation (injected_logs run ! i)
                    (Policy_Violation (df_access_logs run ! i))))
       \<and> (i < length df \<and> PHI_Flag (df ! i) \<noteq> None \<longrightarrow>
            Policy_Violation (labeler df ! i) =
              (if (PHI_Flag (df ! i) = Some True \<and> Encryption_Status (df ! i) = Some ''Plain'')
                  \<or> (21 \<le> hour (Timestamp (df ! i)) \<or> hour (Timestamp (df ! i)) < 5)
                  \<or> IP_Location (df ! i) \<noteq> ''US''
               then 1 else 0))"
proof (rule conjI)
  obtain run where run: "pipeline na nl nu nk g = Inr run"
    using pipeline_total[OF assms] by blast
  note t = pipeline_tables[OF run]
  obtain g1 g2 g3 where f: "df_access_logs run = labeler (injected_logs run)"
    using run by (rule pipeline_Inr)
  have rule: "Policy_Violation r =
                    (if (PHI_Flag r = Some True \<and> Encryption_Status r = Some ''Plain'')
                        \<or> (21 \<le> hour (Timestamp r) \<or> hour (Timestamp r) < 5)
                        \<or> IP_Location r \<noteq> ''US''
                     then 1 else 0)" if r: "r \<in> set (df_access_logs run)" for r
  proof -
    have "consistent_with (df_metadata run) r" using t(10) r by blast
    then have "truthy (PHI_Flag r) \<longleftrightarrow> PHI_Flag r = Some True"
      by (rule consistent_with_truthy)
    moreover have "Policy_Violation r = (if violation_of r then 1 else 0)"
      using r unfolding f by (rule labeler_row)
    ultimately show ?thesis by (simp add: violation_of_iff)
  qed
  have frame: "df_access_logs run ! i =
                  set_Policy_Violation (injected_logs run ! i)
                    (Policy_Violation (df_access_logs run ! i))" if "i < nl" for i
    using that t(7) unfolding f by (simp add: labeler_map set_Policy_Violation_def)
  show "\<exists>run. pipeline na nl nu nk g = Inr run
            \<and> length (df_access_logs run) = nl
            \<and> (\<forall>r\<in>set (df_access_logs run).
                  Policy_Violation r =
                    (if (PHI_Flag r = Some True \<and> Encryption_Status r = Some ''Plain'')
                        \<or> (21 \<le> hour (Timestamp r) \<or> hour (Timestamp r) < 5)
                        \<or> IP_Location r \<noteq> ''US''
                     then 1 else 0))
            \<and> (\<forall>i<nl. df_access_logs run ! i =
                  set_Policy_Violation (injected_logs run ! i)
                    (Policy_Violation (df_access_logs run ! i)))"
    using run t(9) rule frame by blast
next
  show "i < length df \<and> PHI_Flag (df ! i) \<noteq> None \<longrightarrow>
            Policy_Violation (labeler df ! i) =
              (if (PHI_Flag (df ! i) = Some True \<and> Encryption_Status (df ! i) = Some ''Plain'')
                  \<or> (21 \<le> hour (Timestamp (df ! i)) \<or> hour (Timestamp (df ! i)) < 5)
                  \<or> IP_Location (df ! i) \<noteq> ''US''
               then 1 else 0)"
  proof
    assume a: "i < length df \<and> PHI_Flag (df ! i) \<noteq> None"
    then obtain b where b: "PHI_Flag (df ! i) = Some b" by auto
    have "truthy (PHI_Flag (df ! i)) \<longleftrightarrow> PHI_Flag (df ! i) = Some True"
      unfolding b by (simp add: truthy_def)
    then show "Policy_Violation (labeler df ! i) =
              (if (PHI_Flag (df ! i) = Some True \<and> Encryption_Status (df ! i) = Some ''Plain'')
                  \<or> (21 \<le> hour (Timestamp (df ! i)) \<or> hour (Timestamp (df ! i)) < 5)
                  \<or> IP_Location (df ! i) \<noteq> ''US''
               then 1 else 0)"
      using a by (simp add: labeler_map set_Policy_Violation_def violation_of_iff)
  qed
qed

theorem policy_violation_rule_witness:
  "(\<exists>run. generate_data zero_tape = Inr run \<and> length (df_access_logs run) = 100000)
   \<and> Policy_Violation (labeler [example_row, example_row_eu] ! 0) = 0
   \<and> Policy_Violation (labeler [example_row, example_row_eu] ! 1) = 1"
proof -
  have p: "0 < n_assets" "0 < n_users" "0 < n_anomalies \<or> n_logs = 0"
    by (simp_all add: n_assets_def n_users_def n_anomalies_def)
  note t0 = policy_violation_rule[OF p, of zero_tape 0
      "[example_row, example_row_eu]"]
  note t1 = policy_violation_rule[OF p, of zero_tape 1
      "[example_row, example_row_eu]"]
  have a: "\<exists>run. generate_data zero_tape = Inr run \<and> length (df_access_logs run) = 100000"
    using t0 unfolding generate_data_def by (auto simp: n_logs_def)
  have b: "Policy_Violation (labeler [example_row, example_row_eu] ! 0) = 0"
    using t0 by (simp add: example_row_def example_time_def)
  have c: "Policy_Violation (labeler [example_row, example_row_eu] ! 1) = 1"
    using t1 by (simp add: example_row_def example_row_eu_def example_time_def)
  from a b c show ?thesis by blast
qed

text \<open>
  C6. In every run (any number of assets, of users and of anomalies above zero), every
  \<open>Data_Asset_ID\<close> of a log row is the ID of a row of the
  metadata table: in the table as generated, after the join, after the anomaly
  injection and in the final table. An anomaly leaves a row's asset ID as it was or
  replaces it by an ID of the metadata table.
\<close>

theorem referential_integrity:
  assumes "0 < na" and "0 < nu" and "0 < nk \<or> nl = 0"
  shows "(\<exists>run. pipeline na nl nu nk g = Inr run
            \<and> length (generated_logs run) = nl \<and> length (injected_logs run) = nl
            \<and> (\<forall>r\<in>set (generated_logs run).
                  Data_Asset_ID r \<in> set (map meta_Data_Asset_ID (df_metadata run)))
            \<and> (\<forall>r\<in>set (merged_logs run).
                  Data_Asset_ID r \<in> set (map meta_Data_Asset_ID (df_metadata run)))
            \<and> (\<forall>r\<in>set (injected_logs run).
                  Data_Asset_ID r \<in> set (map meta_Data_Asset_ID (df_metadata run)))
            \<and> (\<forall>r\<in>set (df_access_logs run).
                  Data_Asset_ID r \<in> set (map meta_Data_Asset_ID (df_metadata run))))
       \<and> (apply_anomaly ty meta row h = Inr (row', h') \<longrightarrow>
            Data_Asset_ID row' = Data_Asset_ID row
            \<or> Data_Asset_ID row' \<in> set (map meta_Data_Asset_ID meta))"
proof (rule conjI)
  obtain run where run: "pipeline na nl nu nk g = Inr run"
    using pipeline_total[OF assms] by blast
  note t = pipeline_tables[OF run]
  have c: "\<forall>r\<in>set df. Data_Asset_ID r \<in> set (map meta_Data_Asset_ID (df_metadata run))"
    if "\<forall>r\<in>set df. consistent_with (df_metadata run) r"
    for df :: "'b merged_log_scheme list"
    using that by (force simp: consistent_with_def)
  have a: "\<forall>r\<in>set (merged_logs run).
                  Data_Asset_ID r \<in> set (map meta_Data_Asset_ID (df_metadata run))"
    using t(6) by (rule c)
  have b: "\<forall>r\<in>set (injected_logs run).
                  Data_Asset_ID r \<in> set (map meta_Data_Asset_ID (df_metadata run))"
    using t(8) by (rule c)
  have d: "\<forall>r\<in>set (df_access_logs run).
                  Data_Asset_ID r \<in> set (map meta_Data_Asset_ID (df_metadata run))"
    using t(10) by (rule c)
  show "\<exists>run. pipeline na nl nu nk g = Inr run
            \<and> length (generated_logs run) = nl \<and> length (injected_logs run) = nl
            \<and> (\<forall>r\<in>set (generated_logs run).
                  Data_Asset_ID r \<in> set (map meta_Data_Asset_ID (df_metadata run)))
            \<and> (\<forall>r\<in>set (merged_logs run).
                  Data_Asset_ID r \<in> set (map meta_Data_Asset_ID (df_metadata run)))
            \<and> (\<forall>r\<in>set (injected_logs run).
                  Data_Asset_ID r \<in> set (map meta_Data_Asset_ID (df_metadata run)))
            \<and> (\<forall>r\<in>set (df_access_logs run).
                  Data_Asset_ID r \<in> set (map meta_Data_Asset_ID (df_metadata run)))"
    by (intro exI[of _ run] conjI run t(3) t(7) t(4) a b d)
next
  show "apply_anomaly ty meta row h = Inr (row', h') \<longrightarrow>
            Data_Asset_ID row' = Data_Asset_ID row
            \<or> Data_Asset_ID row' \<in> set (map meta_Data_Asset_ID meta)"
  proof
    assume a: "apply_anomaly ty meta row h = Inr (row', h')"
    consider "ty = ''plain_phi''" "plain_phi_assets meta = []"
      | "ty = ''plain_phi''" "plain_phi_assets meta \<noteq> []"
      | "ty = ''off_hours''" | "ty = ''non_us''"
      | "ty \<noteq> ''plain_phi''" "ty \<noteq> ''off_hours''" "ty \<noteq> ''non_us''" by blast
    then show "Data_Asset_ID row' = Data_Asset_ID row
            \<or> Data_Asset_ID row' \<in> set (map meta_Data_Asset_ID meta)"
    proof cases
      case 1
      then show ?thesis using a by (simp add: apply_anomaly_plain_phi)
    next
      case 2
      define x where "x = plain_phi_assets meta ! (h 0 mod length (plain_phi_assets meta))"
      have "x \<in> set (plain_phi_assets meta)" unfolding x_def using 2(2) by simp
      then obtain a where "a \<in> set meta" "meta_Data_Asset_ID a = x"
        using plain_phi_assets_member[of x meta] by blast
      then have "x \<in> set (map meta_Data_Asset_ID meta)"
        by force
      moreover have "Data_Asset_ID row' = x"
        using a 2 by (auto simp: apply_anomaly_plain_phi x_def)
      ultimately show ?thesis by simp
    next
      case 3
      then show ?thesis using a by (auto simp: apply_anomaly_off_hours)
    next
      case 4
      then show ?thesis using a by (auto simp: apply_anomaly_non_us)
    next
      case 5
      then show ?thesis using a by (simp add: apply_anomaly_other)
    qed
  qed
qed

theorem referential_integrity_witness:
  "\<exists>run. generate_data one_tape = Inr run
     \<and> length (generated_logs run) = 100000 \<and> length (injected_logs run) = 100000
     \<and> Data_Asset_ID (generated_logs run ! 0) \<in> set (map meta_Data_Asset_ID (df_metadata run))
     \<and> Data_Asset_ID (injected_logs run ! 0) \<in> set (map meta_Data_Asset_ID (df_metadata run))"
proof -
  have p: "0 < n_assets" "0 < n_users" "0 < n_anomalies \<or> n_logs = 0"
    by (simp_all add: n_assets_def n_users_def n_anomalies_def)
  obtain run where r: "pipeline n_assets n_logs n_users n_anomalies one_tape = Inr run"
    and l: "length (generated_logs run) = n_logs" "length (injected_logs run) = n_logs"
    and a: "\<forall>r\<in>set (generated_logs run).
                  Data_Asset_ID r \<in> set (map meta_Data_Asset_ID (df_metadata run))"
    and b: "\<forall>r\<in>set (injected_logs run).
                  Data_Asset_ID r \<in> set (map meta_Data_Asset_ID (df_metadata run))"
    using referential_integrity[OF p, of one_tape] by blast
  have "generated_logs run ! 0 \<in> set (generated_logs run)"
    "injected_logs run ! 0 \<in> set (injected_logs run)"
    using l by (simp_all add: n_logs_def)
  then have "Data_Asset_ID (generated_logs run ! 0) \<in> set (map meta_Data_Asset_ID (df_metadata run))"
    "Data_Asset_ID (injected_logs run ! 0) \<in> set (map meta_Data_Asset_ID (df_metadata run))"
    using a b by blast+
  moreover have "length (generated_logs run) = 100000" "length (injected_logs run) = 100000"
    using l by (simp_all add: n_logs_def)
  moreover have "generate_data one_tape = Inr run" unfolding generate_data_def by (rule r)
  ultimately show ?thesis by blast
qed

subsection \<open>The copied columns when the labeler starts\<close>

text \<open>
  C9. In every run (any number of assets, of users and of anomalies above zero), when
  the labeler starts (on the table after the injection), every
  log row's \<open>PHI_Flag\<close> and \<open>Encryption_Status\<close> are the values of the metadata row
  with the row's \<open>Data_Asset_ID\<close>; there is exactly one such metadata row, since the
  metadata IDs are pairwise different. The join establishes this; the \<open>plain_phi\<close>
  anomaly keeps it when it replaces the asset ID; the \<open>off_hours\<close> and \<open>non_us\<close>
  anomalies change neither the asset ID nor the two copied columns.
\<close>

theorem denormalised_columns_match:
  assumes "0 < na" and "0 < nu" and "0 < nk \<or> nl = 0"
  shows "(\<exists>run. pipeline na nl nu nk g = Inr run
            \<and> length (injected_logs run) = nl
            \<and> distinct (map meta_Data_Asset_ID (df_metadata run))
            \<and> (\<forall>r\<in>set (merged_logs run). \<exists>a\<in>set (df_metadata run).
                  meta_Data_Asset_ID a = Data_Asset_ID r
                  \<and> PHI_Flag r = Some (meta_PHI_Flag a)
                  \<and> Encryption_Status r = Some (meta_Encryption_Status a))
            \<and> (\<forall>r\<in>set (injected_logs run). \<exists>a\<in>set (df_metadata run).
                  meta_Data_Asset_ID a = Data_Asset_ID r
                  \<and> PHI_Flag r = Some (meta_PHI_Flag a)
                  \<and> Encryption_Status r = Some (meta_Encryption_Status a)))
       \<and> ((\<exists>a\<in>set meta. meta_Data_Asset_ID a = Data_Asset_ID row
                  \<and> PHI_Flag row = Some (meta_PHI_Flag a)
                  \<and> Encryption_Status row = Some (meta_Encryption_Status a))
            \<and> apply_anomaly ''plain_phi'' meta row h = Inr (row', h')
            \<longrightarrow> (\<exists>a\<in>set meta. meta_Data_Asset_ID a = Data_Asset_ID row'
                  \<and> PHI_Flag row' = Some (meta_PHI_Flag a)
                  \<and> Encryption_Status row' = Some (meta_Encryption_Status a)))
       \<and> ((ty = ''off_hours'' \<or> ty = ''non_us'') \<and> apply_anomaly ty meta row h = Inr (row', h')
            \<longrightarrow> Data_Asset_ID row' = Data_Asset_ID row \<and> PHI_Flag row' = PHI_Flag row
                \<and> Encryption_Status row' = Encryption_Status row)"
proof (intro conjI)
  obtain run where run: "pipeline na nl nu nk g = Inr run"
    using pipeline_total[OF assms] by blast
  note t = pipeline_tables[OF run]
  have d: "distinct (map meta_Data_Asset_ID (df_metadata run))"
    unfolding t(2) by (rule asset_ids_distinct)
  show "\<exists>run. pipeline na nl nu nk g = Inr run
            \<and> length (injected_logs run) = nl
            \<and> distinct (map meta_Data_Asset_ID (df_metadata run))
            \<and> (\<forall>r\<in>set (merged_logs run). \<exists>a\<in>set (df_metadata run).
                  meta_Data_Asset_ID a = Data_Asset_ID r
                  \<and> PHI_Flag r = Some (meta_PHI_Flag a)
                  \<and> Encryption_Status r = Some (meta_Encryption_Status a))
            \<and> (\<forall>r\<in>set (injected_logs run). \<exists>a\<in>set (df_metadata run).
                  meta_Data_Asset_ID a = Data_Asset_ID r
                  \<and> PHI_Flag r = Some (meta_PHI_Flag a)
                  \<and> Encryption_Status r = Some (meta_Encryption_Status a))"
    by (intro exI[of _ run] conjI run t(7) d t(6)[unfolded consistent_with_def]
        t(8)[unfolded consistent_with_def])
next
  show "(\<exists>a\<in>set meta. meta_Data_Asset_ID a = Data_Asset_ID row
                  \<and> PHI_Flag row = Some (meta_PHI_Flag a)
                  \<and> Encryption_Status row = Some (meta_Encryption_Status a))
            \<and> apply_anomaly ''plain_phi'' meta row h = Inr (row', h')
            \<longrightarrow> (\<exists>a\<in>set meta. meta_Data_Asset_ID a = Data_Asset_ID row'
                  \<and> PHI_Flag row' = Some (meta_PHI_Flag a)
                  \<and> Encryption_Status row' = Some (meta_Encryption_Status a))"
    using apply_anomaly_consistent[of meta row "''plain_phi''" h row' h']
    unfolding consistent_with_def by blast
next
  show "(ty = ''off_hours'' \<or> ty = ''non_us'') \<and> apply_anomaly ty meta row h = Inr (row', h')
            \<longrightarrow> Data_Asset_ID row' = Data_Asset_ID row \<and> PHI_Flag row' = PHI_Flag row
                \<and> Encryption_Status row' = Encryption_Status row"
    by (auto simp: apply_anomaly_off_hours apply_anomaly_non_us)
qed

theorem denormalised_columns_match_witness:
  "\<exists>run. generate_data zero_tape = Inr run
     \<and> length (injected_logs run) = 100000
     \<and> (\<exists>a\<in>set (df_metadata run).
           meta_Data_Asset_ID a = Data_Asset_ID (injected_logs run ! 7)
           \<and> PHI_Flag (injected_logs run ! 7) = Some (meta_PHI_Flag a)
           \<and> Encryption_Status (injected_logs run ! 7) = Some (meta_Encryption_Status a))"
proof -
  have p: "0 < n_assets" "0 < n_users" "0 < n_anomalies \<or> n_logs = 0"
    by (simp_all add: n_assets_def n_users_def n_anomalies_def)
  obtain run where r: "pipeline n_assets n_logs n_users n_anomalies zero_tape = Inr run"
    and l: "length (injected_logs run) = n_logs"
    and a: "\<forall>r\<in>set (injected_logs run). \<exists>a\<in>set (df_metadata run).
                  meta_Data_Asset_ID a = Data_Asset_ID r
                  \<and> PHI_Flag r = Some (meta_PHI_Flag a)
                  \<and> Encryption_Status r = Some (meta_Encryption_Status a)"
    using denormalised_columns_match[OF p, of zero_tape] by blast
  have "injected_logs run ! 7 \<in> set (injected_logs run)"
    using l by (simp add: n_logs_def)
  then have "\<exists>a\<in>set (df_metadata run).
           meta_Data_Asset_ID a = Data_Asset_ID (injected_logs run ! 7)
           \<and> PHI_Flag (injected_logs run ! 7) = Some (meta_PHI_Flag a)
           \<and> Encryption_Status (injected_logs run ! 7) = Some (meta_Encryption_Status a)"
    using a by blast
  moreover have "length (injected_logs run) = 100000" using l by (simp add: n_logs_def)
  moreover have "generate_data zero_tape = Inr run" unfolding generate_data_def by (rule r)
  ultimately show ?thesis by blast
qed

subsection \<open>Runs on a constant generator\<close>













subsection \<open>The code has the effects the specification gives\<close>



lemma pipeline_raises:
  assumes "0 < na" and "0 < nu" and "0 < nl"
  shows "pipeline na nl nu 0 g = Inl ValueError"
proof -
  obtain meta g1 where m: "generate_metadata na g = Inr (meta, g1)"
    using generate_metadata_total by blast
  have "length meta = na" using generate_metadata_rows(1)[OF m] .
  then have ne: "meta \<noteq> []" using assms(1) by auto
  obtain logs g2 where l: "generate_access_logs nl nu meta g1 = Inr (logs, g2)"
    using generate_access_logs_total[OF ne assms(2)] by blast
  have ids: "map meta_Data_Asset_ID meta = asset_ids na"
    using generate_metadata_rows(2)[OF m] .
  have d: "distinct (map meta_Data_Asset_ID meta)" unfolding ids by (rule asset_ids_distinct)
  have "length (merge_left logs meta) = length logs"
    using merge_left_consistent(1)[OF d generate_access_logs_rows(2)[OF l]] .
  then have "merge_left logs meta \<noteq> []"
    using generate_access_logs_rows(1)[OF l] assms(3) by auto
  then have "inject_anomalies 0 (merge_left logs meta) meta g2 = Inl ValueError"
    by (rule inject_anomalies_raises)
  then show ?thesis by (simp add: pipeline_def m l)
qed

subsection \<open>The selection of rows\<close>

lemma make_anomaly_one_type:
  assumes "make_anomaly meta row h = Inr (row', h')"
  shows "\<exists>ty\<in>{''plain_phi'', ''off_hours'', ''non_us''}.
           \<exists>h1. apply_anomaly ty meta row h1 = Inr (row', h')"
  using assms anomaly_type_cases[of "h 0"] unfolding make_anomaly_eq by blast




subsection \<open>The \<open>non_us\<close> anomaly\<close>

text \<open>
  C4, as stated: a \<open>non_us\<close> mutation always changes the row's \<open>IP_Location\<close>, also when
  it was \<open>EU\<close> or \<open>AS\<close> before. This fails: the new value is drawn from
  \<open>['EU', 'AS']\<close> without looking at the old one. On a row whose \<open>IP_Location\<close> is
  \<open>EU\<close>, with the generator returning the first option, the row comes back as it was.
\<close>

theorem non_us_change_counterexample:
  "IP_Location example_row_eu = ''EU''
   \<and> map_sum id fst (apply_anomaly ''non_us'' example_metadata example_row_eu zero_tape)
       = Inr example_row_eu"
  by (simp add: apply_anomaly_non_us zero_tape_def example_row_eu_def)

text \<open>
  C4, amended: a \<open>non_us\<close> mutation always succeeds, sets \<open>IP_Location\<close> to \<open>EU\<close> or
  \<open>AS\<close> and leaves every other field as it was. The value changes whenever the old
  value was neither \<open>EU\<close> nor \<open>AS\<close> (so whenever it was \<open>US\<close>); when the old value
  was \<open>EU\<close> or \<open>AS\<close> the draw may return the same value, and then the row is unchanged.
\<close>

theorem non_us_sets_region:
  "\<exists>row' h'. apply_anomaly ''non_us'' meta row h = Inr (row', h')
     \<and> IP_Location row' \<in> {''EU'', ''AS''}
     \<and> row' = row\<lparr>IP_Location := IP_Location row'\<rparr>
     \<and> (IP_Location row \<notin> {''EU'', ''AS''} \<longrightarrow> IP_Location row' \<noteq> IP_Location row)
     \<and> (IP_Location row' = IP_Location row \<longrightarrow> row' = row)"
proof -
  define ip where "ip = [''EU'', ''AS''] ! (h 0 mod 2)"
  have ip: "ip \<in> {''EU'', ''AS''}" unfolding ip_def by (rule eu_as_cases)
  have a: "apply_anomaly ''non_us'' meta row h = Inr (row\<lparr>IP_Location := ip\<rparr>, \<lambda>n. h (Suc n))"
    unfolding ip_def by (rule apply_anomaly_non_us)
  have b: "IP_Location (row\<lparr>IP_Location := ip\<rparr>) \<in> {''EU'', ''AS''}" using ip by simp
  have c: "row\<lparr>IP_Location := ip\<rparr>
             = row\<lparr>IP_Location := IP_Location (row\<lparr>IP_Location := ip\<rparr>)\<rparr>" by simp
  have d: "IP_Location row \<notin> {''EU'', ''AS''}
             \<longrightarrow> IP_Location (row\<lparr>IP_Location := ip\<rparr>) \<noteq> IP_Location row"
    using ip by auto
  have e: "IP_Location (row\<lparr>IP_Location := ip\<rparr>) = IP_Location row
             \<longrightarrow> row\<lparr>IP_Location := ip\<rparr> = row" by auto
  show ?thesis
    by (intro exI[of _ "row\<lparr>IP_Location := ip\<rparr>"] exI[of _ "\<lambda>n. h (Suc n)"] conjI a b c d e)
qed

theorem non_us_sets_region_witness:
  "IP_Location example_row = ''US''
   \<and> (\<exists>row' h'. apply_anomaly ''non_us'' example_metadata example_row one_tape = Inr (row', h')
         \<and> IP_Location row' \<in> {''EU'', ''AS''}
         \<and> IP_Location row' \<noteq> IP_Location example_row
         \<and> Data_Asset_ID row' = Data_Asset_ID example_row
         \<and> Timestamp row' = Timestamp example_row)"
proof -
  have us: "IP_Location example_row = ''US''" by (simp add: example_row_def)
  then have n: "IP_Location example_row \<notin> {''EU'', ''AS''}" by simp
  obtain row' h' where
    a: "apply_anomaly ''non_us'' example_metadata example_row one_tape = Inr (row', h')"
    and b: "IP_Location row' \<in> {''EU'', ''AS''}"
    and c: "row' = example_row\<lparr>IP_Location := IP_Location row'\<rparr>"
    and d: "IP_Location example_row \<notin> {''EU'', ''AS''}
              \<longrightarrow> IP_Location row' \<noteq> IP_Location example_row"
    using non_us_sets_region[of example_metadata example_row one_tape] by blast
  have e: "IP_Location row' \<noteq> IP_Location example_row" using d n by blast
  have f: "Data_Asset_ID row' = Data_Asset_ID example_row"
    by (subst c) simp
  have g: "Timestamp row' = Timestamp example_row"
    by (subst c) simp
  show ?thesis using us a b e f g by blast
qed

subsection \<open>The \<open>plain_phi\<close> anomaly without a plaintext PHI asset\<close>

text \<open>
  C5. When no metadata row has \<open>PHI_Flag\<close> true and \<open>Encryption_Status\<close> \<open>Plain\<close>, a
  \<open>plain_phi\<close> mutation returns the row as it was, draws nothing from the generator and
  raises nothing; the row the loop appends for such a draw is the unchanged row. With
  one anomaly or more to inject (or an empty table) the injection block as a whole
  completes without an exception, and every row of the table it returns is the row that
  was at that position before, or what \<open>off_hours\<close> or \<open>non_us\<close> made of that row.
\<close>

theorem plain_phi_no_op:
  assumes "\<forall>a\<in>set meta. \<not> (meta_PHI_Flag a = True \<and> meta_Encryption_Status a = ''Plain'')"
  shows "apply_anomaly ''plain_phi'' meta row g = Inr (row, g)
     \<and> (choice [''plain_phi'', ''off_hours'', ''non_us''] h = Inr (''plain_phi'', g)
          \<longrightarrow> make_anomaly meta row h = Inr (row, g))
     \<and> (0 < k \<or> df = [] \<longrightarrow>
          (\<exists>idxs rows df' g'. inject_anomalies k df meta g = Inr ((idxs, rows, df'), g')
            \<and> length df' = length df
            \<and> (\<forall>i<length df. df' ! i = df ! i
                  \<or> (\<exists>ty\<in>{''off_hours'', ''non_us''}. \<exists>h1 h2.
                        apply_anomaly ty meta (df ! i) h1 = Inr (df' ! i, h2)))))"
proof (intro conjI impI)
  have e: "plain_phi_assets meta = []"
    using assms by (simp add: plain_phi_assets_def filter_empty_conv)
  show a: "apply_anomaly ''plain_phi'' meta row g = Inr (row, g)"
    by (simp add: apply_anomaly_plain_phi e)
  show "make_anomaly meta row h = Inr (row, g)"
    if "choice [''plain_phi'', ''off_hours'', ''non_us''] h = Inr (''plain_phi'', g)"
    using that by (simp add: make_anomaly_def a)
  assume kd: "0 < k \<or> df = []"
  obtain idxs rows df' g' where
    i: "inject_anomalies k df meta g = Inr ((idxs, rows, df'), g')"
    using inject_anomalies_total[OF kd] by blast
  note tr = inject_anomalies_trace[OF i]
  have rows: "df' ! i = df ! i
                \<or> (\<exists>ty\<in>{''off_hours'', ''non_us''}. \<exists>h1 h2.
                      apply_anomaly ty meta (df ! i) h1 = Inr (df' ! i, h2))"
    if il: "i < length df" for i
  proof (cases "i \<in> set idxs")
    case False
    then have "df' ! i = df ! i" using tr(7) il by simp
    then show ?thesis by (rule disjI1)
  next
    case True
    then obtain j where j: "j < length idxs" and ij: "idxs ! j = i"
      by (auto simp: in_set_conv_nth)
    have "df' ! (idxs ! j) = rows ! j \<and>
           (\<exists>h h'. make_anomaly meta (df ! (idxs ! j)) h = Inr (rows ! j, h'))"
      using tr(8) j by simp
    then obtain m1 m2 where "df' ! (idxs ! j) = rows ! j"
      and "make_anomaly meta (df ! (idxs ! j)) m1 = Inr (rows ! j, m2)"
      by (elim conjE exE)
    then have "make_anomaly meta (df ! i) m1 = Inr (df' ! i, m2)"
      using ij by simp
    then have "\<exists>ty\<in>{''plain_phi'', ''off_hours'', ''non_us''}.
           \<exists>h1. apply_anomaly ty meta (df ! i) h1 = Inr (df' ! i, m2)"
      by (rule make_anomaly_one_type)
    then obtain ty h1 where ty: "ty \<in> {''plain_phi'', ''off_hours'', ''non_us''}"
      and ap: "apply_anomaly ty meta (df ! i) h1 = Inr (df' ! i, m2)"
      by (elim bexE exE)
    show ?thesis
    proof (cases "ty = ''plain_phi''")
      case True
      have "apply_anomaly ''plain_phi'' meta (df ! i) h1 = Inr (df ! i, h1)"
        by (simp add: apply_anomaly_plain_phi e)
      then have "df' ! i = df ! i" using ap unfolding True by simp
      then show ?thesis by (rule disjI1)
    next
      case False
      then have "ty \<in> {''off_hours'', ''non_us''}" using ty by simp
      then have "\<exists>ty\<in>{''off_hours'', ''non_us''}. \<exists>h1 h2.
                      apply_anomaly ty meta (df ! i) h1 = Inr (df' ! i, h2)"
        using ap by (intro bexI[of _ ty] exI[of _ h1] exI[of _ m2])
      then show ?thesis by (rule disjI2)
    qed
  qed
  show "\<exists>idxs rows df' g'. inject_anomalies k df meta g = Inr ((idxs, rows, df'), g')
          \<and> length df' = length df
          \<and> (\<forall>i<length df. df' ! i = df ! i
                \<or> (\<exists>ty\<in>{''off_hours'', ''non_us''}. \<exists>h1 h2.
                      apply_anomaly ty meta (df ! i) h1 = Inr (df' ! i, h2)))"
  proof (rule exI[of _ idxs], rule exI[of _ rows], rule exI[of _ df'], rule exI[of _ g'],
      intro conjI allI impI)
    show "inject_anomalies k df meta g = Inr ((idxs, rows, df'), g')" by (rule i)
    show "length df' = length df" by (rule tr(6))
    fix i assume "i < length df"
    then show "df' ! i = df ! i
                \<or> (\<exists>ty\<in>{''off_hours'', ''non_us''}. \<exists>h1 h2.
                      apply_anomaly ty meta (df ! i) h1 = Inr (df' ! i, h2))"
      by (rule rows)
  qed
qed

theorem plain_phi_no_op_witness:
  "apply_anomaly ''plain_phi'' example_metadata example_row zero_tape
     = Inr (example_row, zero_tape)
   \<and> make_anomaly example_metadata example_row zero_tape = Inr (example_row, zero_tape)
   \<and> (\<exists>idxs rows df' g'.
         inject_anomalies 1 [example_row, example_row_eu] example_metadata zero_tape
           = Inr ((idxs, rows, df'), g')
         \<and> length df' = 2)"
proof -
  have m: "\<forall>a\<in>set example_metadata.
             \<not> (meta_PHI_Flag a = True \<and> meta_Encryption_Status a = ''Plain'')"
    by (simp add: example_metadata_def)
  have z: "(\<lambda>n. zero_tape (Suc n)) = zero_tape" by (simp add: zero_tape_def fun_eq_iff)
  have c: "choice [''plain_phi'', ''off_hours'', ''non_us''] zero_tape
             = Inr (''plain_phi'', zero_tape)"
    unfolding choice_def next_raw_def z by (simp add: zero_tape_def)
  note t = plain_phi_no_op[OF m, of example_row zero_tape zero_tape 1
      "[example_row, example_row_eu]"]
  have a: "apply_anomaly ''plain_phi'' example_metadata example_row zero_tape
     = Inr (example_row, zero_tape)" using t by (rule conjunct1)
  have b: "make_anomaly example_metadata example_row zero_tape = Inr (example_row, zero_tape)"
    using t c by blast
  obtain idxs rows df' g' where
    i: "inject_anomalies 1 [example_row, example_row_eu] example_metadata zero_tape
           = Inr ((idxs, rows, df'), g')"
    and l: "length df' = length [example_row, example_row_eu]"
    using t by auto
  have l': "length df' = 2" using l by simp
  show ?thesis using a b i l' by blast
qed

subsection \<open>The \<open>off_hours\<close> anomaly\<close>

text \<open>
  C8. An \<open>off_hours\<close> mutation always succeeds. Afterwards the hour of the row's
  \<open>Timestamp\<close> is one of 21, 22, 23, 0, 1, 2, 3, 4 and its minute is below 60; year,
  month and day (and the second) of the \<open>Timestamp\<close> are as before; every other field
  of the row is as before.
\<close>

theorem off_hours_frame:
  "\<exists>row' h'. apply_anomaly ''off_hours'' meta row h = Inr (row', h')
     \<and> hour (Timestamp row') \<in> {21, 22, 23, 0, 1, 2, 3, 4}
     \<and> minute (Timestamp row') < 60
     \<and> year (Timestamp row') = year (Timestamp row)
     \<and> month (Timestamp row') = month (Timestamp row)
     \<and> day (Timestamp row') = day (Timestamp row)
     \<and> second (Timestamp row') = second (Timestamp row)
     \<and> row' = row\<lparr>Timestamp := Timestamp row'\<rparr>
     \<and> User_ID row' = User_ID row \<and> Data_Asset_ID row' = Data_Asset_ID row
     \<and> Access_Type row' = Access_Type row \<and> IP_Location row' = IP_Location row
     \<and> PHI_Flag row' = PHI_Flag row \<and> Encryption_Status row' = Encryption_Status row"
proof -
  define hr :: nat where "hr = [21, 22, 23, 0, 1, 2, 3, 4] ! (h 0 mod 8)"
  define r' where
    "r' = row\<lparr>Timestamp := (Timestamp row)\<lparr>hour := hr, minute := h (Suc 0) mod 60\<rparr>\<rparr>"
  have hr: "hr \<in> {21, 22, 23, 0, 1, 2, 3, 4}" unfolding hr_def by (rule off_hours_cases)
  have a: "apply_anomaly ''off_hours'' meta row h = Inr (r', \<lambda>n. h (Suc (Suc n)))"
    unfolding r'_def hr_def by (rule apply_anomaly_off_hours)
  have b: "hour (Timestamp r') \<in> {21, 22, 23, 0, 1, 2, 3, 4}"
    using hr by (simp add: r'_def)
  have c: "minute (Timestamp r') < 60" by (simp add: r'_def)
  show ?thesis
    by (intro exI[of _ r'] exI[of _ "\<lambda>n. h (Suc (Suc n))"] conjI a b c)
       (simp_all add: r'_def)
qed

theorem off_hours_frame_witness:
  "\<exists>row' h'. apply_anomaly ''off_hours'' example_metadata example_row one_tape = Inr (row', h')
     \<and> hour (Timestamp row') = 22
     \<and> minute (Timestamp row') = 1
     \<and> year (Timestamp row') = 2024 \<and> month (Timestamp row') = 3 \<and> day (Timestamp row') = 7
     \<and> IP_Location row' = ''US''"
proof -
  obtain row' h' where
    a: "apply_anomaly ''off_hours'' example_metadata example_row one_tape = Inr (row', h')"
    and d: "year (Timestamp row') = year (Timestamp example_row)"
      "month (Timestamp row') = month (Timestamp example_row)"
      "day (Timestamp row') = day (Timestamp example_row)"
    and i: "IP_Location row' = IP_Location example_row"
    using off_hours_frame[of example_metadata example_row one_tape] by blast
  have hm: "hour (Timestamp row') = 22" "minute (Timestamp row') = 1"
    using a by (auto simp: apply_anomaly_off_hours one_tape_def)
  have d': "year (Timestamp row') = 2024" "month (Timestamp row') = 3" "day (Timestamp row') = 7"
    using d by (simp_all add: example_row_def example_time_def)
  have i': "IP_Location row' = ''US''" using i by (simp add: example_row_def)
  show ?thesis by (intro exI[of _ row'] exI[of _ h'] conjI a hm d' i')
qed

subsection \<open>Labels of rows the injector has produced\<close>

text \<open>
  C10. A row that the \<open>off_hours\<close> or the \<open>non_us\<close> anomaly has produced is labelled
  \<open>Policy_Violation = 1\<close> in any table it sits in; so is a row that \<open>plain_phi\<close> has
  produced when the metadata has a plaintext PHI asset. Only \<open>plain_phi\<close> without such
  an asset returns the row as it was, and that row may be labelled 0.
\<close>

theorem anomalies_labelled:
  "((ty = ''off_hours'' \<or> ty = ''non_us''
       \<or> (ty = ''plain_phi'' \<and> plain_phi_assets meta \<noteq> []))
      \<and> apply_anomaly ty meta row h = Inr (row', h') \<and> idx < length df
      \<longrightarrow> Policy_Violation (labeler (df[idx := row']) ! idx) = 1)
   \<and> (ty = ''plain_phi'' \<and> plain_phi_assets meta = []
      \<longrightarrow> apply_anomaly ty meta row h = Inr (row, h))
   \<and> (\<exists>m r g r' g'. apply_anomaly ''plain_phi'' m r g = Inr (r', g')
          \<and> Policy_Violation (labeler [r'] ! 0) = 0)"
proof (intro conjI impI)
  assume a: "(ty = ''off_hours'' \<or> ty = ''non_us''
       \<or> (ty = ''plain_phi'' \<and> plain_phi_assets meta \<noteq> []))
      \<and> apply_anomaly ty meta row h = Inr (row', h') \<and> idx < length df"
  then have ap: "apply_anomaly ty meta row h = Inr (row', h')" and idx: "idx < length df"
    by simp_all
  consider "ty = ''off_hours''" | "ty = ''non_us''"
    | "ty = ''plain_phi''" "plain_phi_assets meta \<noteq> []" using a by blast
  then have "violation_of row'"
  proof cases
    case 1
    define hr :: nat where "hr = [21, 22, 23, 0, 1, 2, 3, 4] ! (h 0 mod 8)"
    have "hr \<in> {21, 22, 23, 0, 1, 2, 3, 4}" unfolding hr_def by (rule off_hours_cases)
    then have "21 \<le> hr \<or> hr < 5" by auto
    moreover have "hour (Timestamp row') = hr"
      using ap 1 by (auto simp: apply_anomaly_off_hours hr_def)
    ultimately show ?thesis by (simp add: violation_of_iff)
  next
    case 2
    define ip where "ip = [''EU'', ''AS''] ! (h 0 mod 2)"
    have "ip \<in> {''EU'', ''AS''}" unfolding ip_def by (rule eu_as_cases)
    then have "ip \<noteq> ''US''" by auto
    moreover have "IP_Location row' = ip"
      using ap 2 by (auto simp: apply_anomaly_non_us ip_def)
    ultimately show ?thesis by (simp add: violation_of_iff)
  next
    case 3
    then have "PHI_Flag row' = Some True \<and> Encryption_Status row' = Some ''Plain''"
      using ap by (auto simp: apply_anomaly_plain_phi)
    then show ?thesis by (simp add: violation_of_iff truthy_def)
  qed
  then show "Policy_Violation (labeler (df[idx := row']) ! idx) = 1"
    using idx by (simp add: labeler_map set_Policy_Violation_def)
next
  assume "ty = ''plain_phi'' \<and> plain_phi_assets meta = []"
  then show "apply_anomaly ty meta row h = Inr (row, h)"
    by (simp add: apply_anomaly_plain_phi)
next
  have e: "plain_phi_assets example_metadata = []"
    by (simp add: plain_phi_assets_def example_metadata_def)
  have a: "apply_anomaly ''plain_phi'' example_metadata example_row zero_tape
             = Inr (example_row, zero_tape)"
    by (simp add: apply_anomaly_plain_phi e)
  have "\<not> violation_of example_row"
    by (simp add: violation_of_iff example_row_def example_time_def)
  then have b: "Policy_Violation (labeler [example_row] ! 0) = 0"
    by (simp add: labeler_map set_Policy_Violation_def)
  show "\<exists>m r g r' g'. apply_anomaly ''plain_phi'' m r g = Inr (r', g')
          \<and> Policy_Violation (labeler [r'] ! 0) = 0"
    using a b by blast
qed

theorem anomalies_labelled_witness:
  "map_sum id fst (apply_anomaly ''non_us'' example_metadata example_row zero_tape)
     = Inr example_row_eu
   \<and> Policy_Violation (labeler ([example_row, example_row][1 := example_row_eu]) ! 1) = 1
   \<and> Policy_Violation (labeler ([example_row, example_row][1 := example_row_eu]) ! 0) = 0
   \<and> apply_anomaly ''plain_phi'' example_metadata example_row zero_tape
       = Inr (example_row, zero_tape)"
proof -
  have a: "apply_anomaly ''non_us'' example_metadata example_row zero_tape
             = Inr (example_row_eu, \<lambda>n. zero_tape (Suc n))"
    by (simp add: apply_anomaly_non_us zero_tape_def example_row_eu_def)
  have e: "plain_phi_assets example_metadata = []"
    by (simp add: plain_phi_assets_def example_metadata_def)
  note t = anomalies_labelled[of "''non_us''" example_metadata example_row zero_tape
      example_row_eu "\<lambda>n. zero_tape (Suc n)" 1 "[example_row, example_row]"]
  note u = anomalies_labelled[of "''plain_phi''" example_metadata example_row zero_tape]
  have b: "Policy_Violation (labeler ([example_row, example_row][1 := example_row_eu]) ! 1) = 1"
    using t a by simp
  have c: "Policy_Violation (labeler ([example_row, example_row][1 := example_row_eu]) ! 0) = 0"
    by (simp add: labeler_map set_Policy_Violation_def violation_of_iff example_row_def
        example_time_def)
  have d: "apply_anomaly ''plain_phi'' example_metadata example_row zero_tape
       = Inr (example_row, zero_tape)"
    using u e by blast
  show ?thesis using a b c d by simp
qed

end
